theory Spec2Isabelle
  imports Complex_Main "HOL-Library.Log_Nat" "HOL-Library.AList"
begin

section \<open>JavaScript numbers\<close>

text \<open>
  The program of \<^verbatim>\<open>src/App.tsx\<close> computes with JavaScript numbers, which are
  IEEE 754 binary64 values. A finite number is modelled by the rational it denotes, the
  three other values by constructors of their own. Every arithmetic operation computes
  the exact rational result and rounds it to the nearest binary64 value, ties to even,
  as the language does. The sign of a zero is not modelled: in the operations the
  program uses (printing, comparison, subtraction, multiplication, division by a
  non-zero number) \<^verbatim>\<open>-0\<close> and \<^verbatim>\<open>+0\<close> give the same result.
\<close>

datatype number = Fin rat | PosInf | NegInf | NaN

text \<open>The binary exponent of a non-zero rational: \<open>2 powi expo x \<le> \<bar>x\<bar> < 2 powi (expo x + 1)\<close>.\<close>

definition expo :: "rat \<Rightarrow> int" where
  "expo x =
     (let (a, b) = quotient_of \<bar>x\<bar>;
          g = bitlen a - bitlen b
      in if 2 powi g \<le> \<bar>x\<bar> then g else g - 1)"

text \<open>Rounding to the nearest integer, ties to the even one.\<close>

definition round_even :: "rat \<Rightarrow> int" where
  "round_even r =
     (let f = \<lfloor>r\<rfloor>; d = r - of_int f
      in if d < 1 / 2 then f
         else if 1 / 2 < d then f + 1
         else if even f then f else f + 1)"

text \<open>
  Rounding to binary64 precision: 53 significant bits, the quantum never below
  \<open>2 powi (-1074)\<close> (subnormal numbers), the exponent not yet bounded above.
\<close>

definition rnd :: "rat \<Rightarrow> rat" where
  "rnd x =
     (if x = 0 then 0
      else let q = 2 powi (max (expo x) (- 1022) - 52)
           in of_int (round_even (x / q)) * q)"

text \<open>
  The binary64 value of an exact result: a rounded value whose binary exponent reaches
  1024, that is whose magnitude is \<open>2 ^ 1024\<close> or more, is infinite.
\<close>

definition fl :: "rat \<Rightarrow> number" where
  "fl x =
     (let y = rnd x
      in if y = 0 \<or> expo y < 1024 then Fin y
         else if 0 < y then PosInf else NegInf)"

text \<open>A rational that is a finite binary64 value.\<close>

definition is_double :: "rat \<Rightarrow> bool" where
  "is_double x \<longleftrightarrow> fl x = Fin x"

fun isFinite :: "number \<Rightarrow> bool" where
  "isFinite (Fin x) = True"
| "isFinite PosInf = False"
| "isFinite NegInf = False"
| "isFinite NaN = False"

text \<open>The operators \<^verbatim>\<open>-\<close>, \<^verbatim>\<open>*\<close> and \<^verbatim>\<open>/\<close> on numbers.\<close>

fun js_neg :: "number \<Rightarrow> number" where
  "js_neg (Fin x) = Fin (- x)"
| "js_neg PosInf = NegInf"
| "js_neg NegInf = PosInf"
| "js_neg NaN = NaN"

fun js_sub :: "number \<Rightarrow> number \<Rightarrow> number" where
  "js_sub (Fin x) (Fin y) = fl (x - y)"
| "js_sub NaN b = NaN"
| "js_sub a NaN = NaN"
| "js_sub PosInf PosInf = NaN"
| "js_sub NegInf NegInf = NaN"
| "js_sub PosInf b = PosInf"
| "js_sub NegInf b = NegInf"
| "js_sub (Fin x) PosInf = NegInf"
| "js_sub (Fin x) NegInf = PosInf"

text \<open>The sign of a number: \<open>1\<close>, \<open>0\<close> or \<open>-1\<close>; of \<^verbatim>\<open>NaN\<close> it is not used.\<close>

fun js_sign :: "number \<Rightarrow> int" where
  "js_sign (Fin x) = (if x < 0 then - 1 else if x = 0 then 0 else 1)"
| "js_sign PosInf = 1"
| "js_sign NegInf = - 1"
| "js_sign NaN = 0"

definition signed_inf :: "int \<Rightarrow> number" where
  "signed_inf s = (if 0 \<le> s then PosInf else NegInf)"

fun js_mul :: "number \<Rightarrow> number \<Rightarrow> number" where
  "js_mul (Fin x) (Fin y) = fl (x * y)"
| "js_mul NaN b = NaN"
| "js_mul a NaN = NaN"
| "js_mul a b =
     (if js_sign a = 0 \<or> js_sign b = 0 then NaN else signed_inf (js_sign a * js_sign b))"

text \<open>
  Division. A zero divisor is taken as \<^verbatim>\<open>+0\<close>; the program divides by the literal
  \<^verbatim>\<open>100\<close> and by \<^verbatim>\<open>max - min\<close> after the test \<^verbatim>\<open>min === max\<close> only.
\<close>

fun js_div :: "number \<Rightarrow> number \<Rightarrow> number" where
  "js_div (Fin x) (Fin y) =
     (if y = 0 then (if x = 0 then NaN else signed_inf (js_sign (Fin x))) else fl (x / y))"
| "js_div NaN b = NaN"
| "js_div a NaN = NaN"
| "js_div (Fin x) b = Fin 0"
| "js_div a (Fin y) = signed_inf (js_sign a * (if y < 0 then - 1 else 1))"
| "js_div a b = NaN"

text \<open>Strict equality \<^verbatim>\<open>===\<close> of two numbers: \<^verbatim>\<open>NaN\<close> equals nothing.\<close>

fun js_eq :: "number \<Rightarrow> number \<Rightarrow> bool" where
  "js_eq NaN b = False"
| "js_eq a NaN = False"
| "js_eq a b = (a = b)"

text \<open>The order \<^verbatim>\<open><=\<close> of two numbers: false when either is \<^verbatim>\<open>NaN\<close>.\<close>

fun js_le :: "number \<Rightarrow> number \<Rightarrow> bool" where
  "js_le (Fin x) (Fin y) = (x \<le> y)"
| "js_le NaN b = False"
| "js_le a NaN = False"
| "js_le NegInf b = True"
| "js_le a PosInf = True"
| "js_le a b = False"

text \<open>\<^verbatim>\<open>Math.min\<close> and \<^verbatim>\<open>Math.max\<close> of two numbers: \<^verbatim>\<open>NaN\<close> if either is.\<close>

fun Math_min :: "number \<Rightarrow> number \<Rightarrow> number" where
  "Math_min NaN b = NaN"
| "Math_min a NaN = NaN"
| "Math_min a b = (if js_le a b then a else b)"

fun Math_max :: "number \<Rightarrow> number \<Rightarrow> number" where
  "Math_max NaN b = NaN"
| "Math_max a NaN = NaN"
| "Math_max a b = (if js_le a b then b else a)"

fun Math_floor :: "number \<Rightarrow> number" where
  "Math_floor (Fin x) = Fin (of_int \<lfloor>x\<rfloor>)"
| "Math_floor a = a"

text \<open>
  Two notions for the statements below, not part of the program: the rational of a finite
  number, and a number clamped to the unit interval.
\<close>

fun the_fin :: "number \<Rightarrow> rat" where
  "the_fin (Fin x) = x"
| "the_fin a = 0"

fun clampUnit :: "number \<Rightarrow> rat" where
  "clampUnit (Fin q) = min 1 (max 0 q)"
| "clampUnit PosInf = 1"
| "clampUnit a = 0"

section \<open>Strings\<close>

text \<open>
  A string is the list of its code units; the model covers the code units below 256.
  The pound sign of the source is the code unit \<open>0xA3\<close>.
\<close>

definition pound :: char where
  "pound = CHR 0xA3"

definition startsWith :: "string \<Rightarrow> string \<Rightarrow> bool" where
  "startsWith s p \<longleftrightarrow> take (length p) s = p"

fun includesStr :: "string \<Rightarrow> string \<Rightarrow> bool" where
  "includesStr [] p = (p = [])"
| "includesStr (c # cs) p = (startsWith (c # cs) p \<or> includesStr cs p)"

text \<open>White space and line terminators, as \<^verbatim>\<open>trimStart\<close> and \<^verbatim>\<open>parseFloat\<close> skip them.\<close>

definition isWhiteSpace :: "char \<Rightarrow> bool" where
  "isWhiteSpace c \<longleftrightarrow> (of_char c :: int) \<in> {9, 10, 11, 12, 13, 32, 160}"

definition trimStart :: "string \<Rightarrow> string" where
  "trimStart s = dropWhile isWhiteSpace s"

definition isDigit :: "char \<Rightarrow> bool" where
  "isDigit c \<longleftrightarrow> 48 \<le> (of_char c :: int) \<and> (of_char c :: int) \<le> 57"

definition digitChar :: "int \<Rightarrow> char" where
  "digitChar d = char_of (48 + d)"

text \<open>The decimal digits of an integer that is not negative, and their number.\<close>

function natDigits :: "int \<Rightarrow> string" where
  "natDigits n = (if n < 10 then [digitChar n] else natDigits (n div 10) @ [digitChar (n mod 10)])"
  by pat_completeness auto
termination
  by (relation "measure nat") auto

function declen :: "int \<Rightarrow> int" where
  "declen n = (if n < 10 then 1 else declen (n div 10) + 1)"
  by pat_completeness auto
termination
  by (relation "measure nat") auto

definition natOfDigits :: "string \<Rightarrow> int" where
  "natOfDigits ds = foldl (\<lambda>a c. 10 * a + (of_char c - 48)) 0 ds"

text \<open>\<^verbatim>\<open>xs.join(sep)\<close> and \<^verbatim>\<open>s.split(c)\<close> for a one-character separator.\<close>

fun join :: "string \<Rightarrow> string list \<Rightarrow> string" where
  "join sep [] = []"
| "join sep [x] = x"
| "join sep (x # y # ys) = x @ sep @ join sep (y # ys)"

fun split :: "char \<Rightarrow> string \<Rightarrow> string list" where
  "split c [] = [[]]"
| "split c (x # xs) =
     (if x = c then [] # split c xs
      else (case split c xs of p # ps \<Rightarrow> (x # p) # ps | [] \<Rightarrow> [[x]]))"

section \<open>Parsing and printing numbers\<close>

text \<open>
  \<^verbatim>\<open>Number.parseFloat\<close>: leading white space is skipped, then the longest prefix that
  is a decimal literal (a sign, then \<^verbatim>\<open>Infinity\<close> or digits with an optional fraction
  and an optional exponent) is read and rounded; \<^verbatim>\<open>NaN\<close> when there is no such prefix.
\<close>

definition decimalValue :: "string \<Rightarrow> int \<Rightarrow> rat" where
  "decimalValue ds e = of_int (natOfDigits ds) * 10 powi e"

text \<open>The exponent part at the head of a string; 0 when there is no complete one.\<close>

definition parseExponent :: "string \<Rightarrow> int" where
  "parseExponent s =
     (case s of
        [] \<Rightarrow> 0
      | c # r \<Rightarrow>
          if c = CHR ''e'' \<or> c = CHR ''E'' then
            (let neg = (case r of [] \<Rightarrow> False | d # t \<Rightarrow> d = CHR ''-'');
                 r' = (case r of [] \<Rightarrow> []
                       | d # t \<Rightarrow> if d = CHR ''+'' \<or> d = CHR ''-'' then t else r);
                 ds = takeWhile isDigit r'
             in if ds = [] then 0
                else if neg then - natOfDigits ds else natOfDigits ds)
          else 0)"

definition parseUnsigned :: "string \<Rightarrow> number" where
  "parseUnsigned s =
     (if startsWith s ''Infinity'' then PosInf
      else
        let ds1 = takeWhile isDigit s; r1 = dropWhile isDigit s
        in case r1 of
             [] \<Rightarrow> if ds1 = [] then NaN else fl (decimalValue ds1 0)
           | c # t \<Rightarrow>
               if c = CHR ''.'' then
                 (let ds2 = takeWhile isDigit t; r2 = dropWhile isDigit t
                  in if ds1 = [] \<and> ds2 = [] then NaN
                     else fl (decimalValue (ds1 @ ds2) (parseExponent r2 - int (length ds2))))
               else if ds1 = [] then NaN
               else fl (decimalValue ds1 (parseExponent r1)))"

definition parseFloat :: "string \<Rightarrow> number" where
  "parseFloat s =
     (case dropWhile isWhiteSpace s of
        [] \<Rightarrow> NaN
      | c # r \<Rightarrow>
          if c = CHR ''-'' then js_neg (parseUnsigned r)
          else if c = CHR ''+'' then parseUnsigned r
          else parseUnsigned (c # r))"

text \<open>
  The conversion of a number to a string (\<^verbatim>\<open>String(x)\<close>, template literals): the
  shortest digit string \<open>s\<close> of \<open>k\<close> digits with \<open>s * 10 powi (n - k)\<close> rounding to the
  number, printed in positional notation for \<open>-6 < n \<le> 21\<close> and with an exponent
  otherwise.
\<close>

text \<open>The decimal position of a positive rational: \<open>10 powi (dexpo x - 1) \<le> x < 10 powi dexpo x\<close>.\<close>

definition dexpo :: "rat \<Rightarrow> int" where
  "dexpo x =
     (let (a, b) = quotient_of x;
          g = declen a - declen b
      in if 10 powi g \<le> x then g + 1 else g)"

text \<open>
  The two \<open>k\<close>-digit candidates around a positive \<open>x\<close> of decimal position \<open>n\<close>, and which of
  them is taken: the closer one (the even one on a tie) of those that round to \<open>x\<close>.
\<close>

definition nearerDigits :: "rat \<Rightarrow> int \<Rightarrow> nat \<Rightarrow> bool \<Rightarrow> bool \<Rightarrow> int \<times> int" where
  "nearerDigits x n k oklo okhi =
     (let sc = 10 powi (n - int k);
          lo = \<lfloor>x / sc\<rfloor>;
          hi = lo + 1;
          dl = x - of_int lo * sc;
          dh = of_int hi * sc - x;
          pickhi = (if oklo \<and> okhi then dh < dl \<or> (dh = dl \<and> even hi) else okhi)
      in if pickhi then (if hi = 10 ^ k then (10 ^ (k - 1), n + 1) else (hi, n))
         else (lo, n))"

definition digitsAt :: "rat \<Rightarrow> int \<Rightarrow> nat \<Rightarrow> (int \<times> int) option" where
  "digitsAt x n k =
     (let sc = 10 powi (n - int k);
          lo = \<lfloor>x / sc\<rfloor>;
          oklo = (fl (of_int lo * sc) = Fin x);
          okhi = (fl (of_int (lo + 1) * sc) = Fin x)
      in if oklo \<or> okhi then Some (nearerDigits x n k oklo okhi) else None)"

text \<open>
  The search for the shortest digit string, from \<open>k\<close> digits on. Seventeen digits
  identify every binary64 value, so the last step takes the nearest candidate.
\<close>

fun findDigits :: "rat \<Rightarrow> int \<Rightarrow> nat \<Rightarrow> nat \<Rightarrow> int \<times> int \<times> nat" where
  "findDigits x n k 0 = (case nearerDigits x n k True True of (s, n') \<Rightarrow> (s, n', k))"
| "findDigits x n k (Suc fuel) =
     (case digitsAt x n k of
        Some (s, n') \<Rightarrow> (s, n', k)
      | None \<Rightarrow> findDigits x n (Suc k) fuel)"

definition shortestDigits :: "rat \<Rightarrow> int \<times> int \<times> nat" where
  "shortestDigits x = findDigits x (dexpo x) 1 16"

definition posToString :: "rat \<Rightarrow> string" where
  "posToString x =
     (case shortestDigits x of (s, n, k) \<Rightarrow>
        let ds = natDigits s
        in if int k \<le> n \<and> n \<le> 21 then ds @ replicate (nat (n - int k)) CHR ''0''
           else if 0 < n \<and> n \<le> 21 then take (nat n) ds @ ''.'' @ drop (nat n) ds
           else if - 6 < n \<and> n \<le> 0 then ''0.'' @ replicate (nat (- n)) CHR ''0'' @ ds
           else
             let e = n - 1;
                 es = (if e < 0 then ''-'' else ''+'') @ natDigits \<bar>e\<bar>
             in if k = 1 then ds @ ''e'' @ es
                else take 1 ds @ ''.'' @ drop 1 ds @ ''e'' @ es)"

fun numToString :: "number \<Rightarrow> string" where
  "numToString NaN = ''NaN''"
| "numToString PosInf = ''Infinity''"
| "numToString NegInf = ''-Infinity''"
| "numToString (Fin x) =
     (if x = 0 then ''0'' else if x < 0 then ''-'' @ posToString (- x) else posToString x)"

text \<open>
  \<^verbatim>\<open>x.toFixed(f)\<close>: for a magnitude below \<open>10 ^ 21\<close> the integer \<open>n\<close> nearest to
  \<open>x * 10 ^ f\<close> (the larger of two) is printed with a point before its last \<open>f\<close> digits;
  a larger magnitude, and a number that is not finite, is printed as \<^verbatim>\<open>String(x)\<close> prints it.
\<close>

definition fixedDigits :: "rat \<Rightarrow> nat \<Rightarrow> string" where
  "fixedDigits a f =
     (let n = \<lfloor>a * 10 ^ f + 1 / 2\<rfloor>;
          m = natDigits n
      in if f \<noteq> 0 then
           (let k = length m;
                m2 = (if k \<le> f then replicate (f + 1 - k) CHR ''0'' @ m else m);
                k2 = length m2
            in take (k2 - f) m2 @ ''.'' @ drop (k2 - f) m2)
         else m)"

fun toFixed :: "number \<Rightarrow> nat \<Rightarrow> string" where
  "toFixed (Fin x) f =
     (let s = (if x < 0 then ''-'' else []);
          a = \<bar>x\<bar>
      in if 10 ^ 21 \<le> a then s @ numToString (Fin a) else s @ fixedDigits a f)"
| "toFixed x f = numToString x"

section \<open>The program: rows, prices and station points\<close>

text \<open>
  A row of the parsed CSV and the prices of a point are objects with string keys and
  string values (\<^verbatim>\<open>Record<string, string>\<close>), modelled as association lists in the order
  of insertion: \<open>map_of r k\<close> is \<^verbatim>\<open>r[k]\<close>, \<open>None\<close> for \<^verbatim>\<open>undefined\<close>, and
  \<open>AList.update k v r\<close> is the assignment \<^verbatim>\<open>r[k] = v\<close>.
\<close>

type_synonym FuelRow = "(string \<times> string) list"

type_synonym Prices = "(string \<times> string) list"

text \<open>The truth value of an optional string: \<^verbatim>\<open>undefined\<close> and the empty string are falsy.\<close>

fun truthy :: "string option \<Rightarrow> bool" where
  "truthy None = False"
| "truthy (Some v) = (v \<noteq> [])"

text \<open>\<^verbatim>\<open>a ?? d\<close> and \<^verbatim>\<open>a || d\<close> for an optional string \<open>a\<close>.\<close>

fun nullish :: "string option \<Rightarrow> string \<Rightarrow> string" where
  "nullish None d = d"
| "nullish (Some v) d = v"

definition orElse :: "string option \<Rightarrow> string \<Rightarrow> string" where
  "orElse a d = (case a of None \<Rightarrow> d | Some v \<Rightarrow> if v \<noteq> [] then v else d)"

definition priceKeys :: "string list" where
  "priceKeys =
     [''forecourts.fuel_price.E5'',
      ''forecourts.fuel_price.E10'',
      ''forecourts.fuel_price.B7P'',
      ''forecourts.fuel_price.B7S'',
      ''forecourts.fuel_price.B10'',
      ''forecourts.fuel_price.HVO'']"

definition toNumber :: "string \<Rightarrow> number option" where
  "toNumber v = (let parsed = parseFloat v in if isFinite parsed then Some parsed else None)"

text \<open>\<^verbatim>\<open>value.replace(/^'+/, '')\<close>: the apostrophes at the head of the string are removed.\<close>

definition normalizePrice :: "string \<Rightarrow> string" where
  "normalizePrice v = dropWhile (\<lambda>c. c = CHR 0x27) v"

definition formatPriceLabel :: "string \<Rightarrow> string" where
  "formatPriceLabel v =
     (let parsed = parseFloat v
      in if \<not> isFinite parsed then v
         else let pounds = js_div parsed (Fin 100) in pound # toFixed pounds 2)"

definition toPounds :: "string \<Rightarrow> number option" where
  "toPounds v =
     (let parsed = parseFloat v
      in if \<not> isFinite parsed then None else Some (js_div parsed (Fin 100)))"


definition preferred :: "string list" where
  "preferred = [''E10'', ''E5'', ''B7S'', ''B7P'', ''B10'', ''HVO'']"

text \<open>The loops of \<^verbatim>\<open>getDisplayPrice\<close> and \<^verbatim>\<open>getDisplayPriceValue\<close> over the preferred keys.\<close>

fun getDisplayPrice_loop :: "Prices \<Rightarrow> string list \<Rightarrow> string option" where
  "getDisplayPrice_loop ps [] = None"
| "getDisplayPrice_loop ps (key # keys) =
     (case map_of ps key of
        None \<Rightarrow> getDisplayPrice_loop ps keys
      | Some v \<Rightarrow> if v \<noteq> [] then Some (formatPriceLabel v) else getDisplayPrice_loop ps keys)"

definition getDisplayPrice :: "Prices \<Rightarrow> string option" where
  "getDisplayPrice ps = getDisplayPrice_loop ps preferred"

fun getDisplayPriceValue_loop :: "Prices \<Rightarrow> string list \<Rightarrow> number option" where
  "getDisplayPriceValue_loop ps [] = None"
| "getDisplayPriceValue_loop ps (key # keys) =
     (case map_of ps key of
        None \<Rightarrow> getDisplayPriceValue_loop ps keys
      | Some v \<Rightarrow> if v \<noteq> [] then toPounds v else getDisplayPriceValue_loop ps keys)"

definition getDisplayPriceValue :: "Prices \<Rightarrow> number option" where
  "getDisplayPriceValue ps = getDisplayPriceValue_loop ps preferred"

text \<open>
  \<^verbatim>\<open>priceToColor\<close>. The hue of the second branch is a function of its own, so that
  properties of the hue can be stated on the number and not on its printed form.
\<close>

definition priceToHue :: "number \<Rightarrow> number \<Rightarrow> number \<Rightarrow> number" where
  "priceToHue v mn mx =
     (let t = Math_min (Fin 1) (Math_max (Fin 0) (js_div (js_sub v mn) (js_sub mx mn)))
      in js_sub (Fin 120) (js_mul (Fin 120) t))"

definition priceToColor :: "number \<Rightarrow> number \<Rightarrow> number \<Rightarrow> string" where
  "priceToColor v mn mx =
     (if \<not> isFinite v \<or> js_eq mn mx then ''#16a34a''
      else ''hsl('' @ numToString (priceToHue v mn mx) @ '', 70%, 45%)'')"

record FuelPoint =
  id' :: string
  lat :: number
  lng :: number
  tradingName :: string
  brand :: string
  address :: string
  postcode :: string
  updated :: string
  prices :: Prices
  hasPrices :: bool
  displayPrice :: "string option"
  displayPriceValue :: "number option"

text \<open>\<^verbatim>\<open>key.split('.').pop() ?? key\<close>: the last segment of a column name.\<close>

definition lastSegment :: "string \<Rightarrow> string" where
  "lastSegment key = (case split CHR ''.'' key of [] \<Rightarrow> key | p # ps \<Rightarrow> last (p # ps))"

text \<open>The loop over \<^verbatim>\<open>priceKeys\<close> that fills the prices of a row.\<close>

fun prices_loop :: "FuelRow \<Rightarrow> string list \<Rightarrow> Prices \<Rightarrow> Prices" where
  "prices_loop row [] acc = acc"
| "prices_loop row (key # keys) acc =
     (case map_of row key of
        None \<Rightarrow> prices_loop row keys acc
      | Some v \<Rightarrow>
          if v \<noteq> [] then prices_loop row keys (AList.update (lastSegment key) (normalizePrice v) acc)
          else prices_loop row keys acc)"

text \<open>
  The body of the loop over the rows. \<open>makePoint\<close> is the part after the test of the
  coordinates: the fields of the point that is pushed. \<open>rowToPoint\<close> is the whole body:
  \<open>None\<close> when the row is skipped by \<^verbatim>\<open>continue\<close>, the point that is pushed otherwise.
\<close>

definition makePoint :: "FuelRow \<Rightarrow> number \<Rightarrow> number \<Rightarrow> FuelPoint" where
  "makePoint row latv lngv =
     (let ps = prices_loop row priceKeys [];
          hp = (0 < length ps)
      in \<lparr>
           id' = orElse (map_of row ''forecourts.node_id'')
                   (numToString latv @ '','' @ numToString lngv),
           lat = latv,
           lng = lngv,
           tradingName = orElse (map_of row ''forecourts.trading_name'') ''Unknown site'',
           brand = orElse (map_of row ''forecourts.brand_name'') ''Unknown brand'',
           address =
             join '', ''
               (map (\<lambda>a. nullish a [])
                  (filter truthy
                     [map_of row ''forecourts.location.address_line_1'',
                      map_of row ''forecourts.location.address_line_2'',
                      map_of row ''forecourts.location.city'',
                      map_of row ''forecourts.location.county''])),
           postcode = orElse (map_of row ''forecourts.location.postcode'') [],
           updated = orElse (map_of row ''latest_update_timestamp'') [],
           prices = ps,
           hasPrices = hp,
           displayPrice = (if hp then getDisplayPrice ps else None),
           displayPriceValue = (if hp then getDisplayPriceValue ps else None)
         \<rparr>)"

definition rowToPoint :: "FuelRow \<Rightarrow> FuelPoint option" where
  "rowToPoint row =
     (case toNumber (nullish (map_of row ''forecourts.location.latitude'') []) of
        None \<Rightarrow> None
      | Some latv \<Rightarrow>
          (case toNumber (nullish (map_of row ''forecourts.location.longitude'') []) of
             None \<Rightarrow> None
           | Some lngv \<Rightarrow> Some (makePoint row latv lngv)))"

fun points_loop :: "FuelRow list \<Rightarrow> FuelPoint list \<Rightarrow> FuelPoint list" where
  "points_loop [] points = points"
| "points_loop (row # rest) points =
     (case rowToPoint row of
        None \<Rightarrow> points_loop rest points
      | Some p \<Rightarrow> points_loop rest (points @ [p]))"

section \<open>The program: loading a file\<close>

text \<open>
  The state of the component that the claims are about, the result of the CSV library
  (the rows and the messages of its errors), and the library itself as a parameter
  \<open>papa\<close> of the handlers: the library's code is not part of the repository.
\<close>

record AppState =
  fileName :: string
  rows :: "FuelPoint list"
  parseError :: string

record ParseResult =
  data :: "FuelRow list"
  errors :: "string list"

definition notCsvMessage :: string where
  "notCsvMessage =
     ''This file does not look like the CSV (it looks like HTML or has no commas). Please re-download the CSV and try again.''"

text \<open>The callback \<^verbatim>\<open>complete\<close> of the parser.\<close>

definition complete_callback :: "ParseResult \<Rightarrow> AppState \<Rightarrow> AppState" where
  "complete_callback results st =
     (let st1 = (case errors results of [] \<Rightarrow> st | e # es \<Rightarrow> st\<lparr>parseError := e\<rparr>)
      in st1\<lparr>rows := points_loop (data results) []\<rparr>)"

text \<open>The test that rejects a text before it is parsed.\<close>

definition looksNotCsv :: "string \<Rightarrow> bool" where
  "looksNotCsv text =
     (let trimmed = trimStart text
      in \<not> includesStr trimmed '','' \<or> startsWith trimmed ''<!DOCTYPE'' \<or> startsWith trimmed ''<html'')"

text \<open>The handler \<^verbatim>\<open>reader.onload\<close>.\<close>

definition onload :: "(string \<Rightarrow> ParseResult) \<Rightarrow> string \<Rightarrow> AppState \<Rightarrow> AppState" where
  "onload papa text st =
     (if looksNotCsv text then st\<lparr>parseError := notCsvMessage, rows := []\<rparr>
      else complete_callback (papa text) st)"

text \<open>
  \<^verbatim>\<open>handleFile\<close>: the name is stored and the error cleared, then the file is read;
  \<open>None\<close> is a read that fails (\<^verbatim>\<open>reader.onerror\<close>).
\<close>

definition handleFile ::
  "(string \<Rightarrow> ParseResult) \<Rightarrow> string \<Rightarrow> string option \<Rightarrow> AppState \<Rightarrow> AppState" where
  "handleFile papa name content st =
     (let st0 = st\<lparr>fileName := name, parseError := []\<rparr>
      in case content of
           None \<Rightarrow> st0\<lparr>parseError := ''Could not read the file.''\<rparr>
         | Some text \<Rightarrow> onload papa text st0)"

section \<open>The program: the range of the color scale\<close>

text \<open>
  \<^verbatim>\<open>Array.prototype.sort\<close> with a comparator is a stable sort: an element stays before
  a later one unless the comparator puts it after (a result above zero; \<^verbatim>\<open>NaN\<close> counts
  as zero). Insertion from the right computes that arrangement.
\<close>

fun insertBy :: "(number \<Rightarrow> number \<Rightarrow> number) \<Rightarrow> number \<Rightarrow> number list \<Rightarrow> number list" where
  "insertBy cmp x [] = [x]"
| "insertBy cmp x (y # ys) =
     (if 0 < js_sign (cmp x y) then y # insertBy cmp x ys else x # y # ys)"

definition sortBy :: "(number \<Rightarrow> number \<Rightarrow> number) \<Rightarrow> number list \<Rightarrow> number list" where
  "sortBy cmp xs = foldr (insertBy cmp) xs []"

text \<open>
  \<^verbatim>\<open>pick\<close>: the element at the floored index; \<open>None\<close> is the \<^verbatim>\<open>undefined\<close> that an
  index out of range reads.
\<close>

definition pick :: "number list \<Rightarrow> number \<Rightarrow> number option" where
  "pick srt p =
     (case Math_floor (js_mul p (js_sub (Fin (of_nat (length srt))) (Fin 1))) of
        Fin i \<Rightarrow>
          if 0 \<le> i \<and> i < of_nat (length srt) then Some (srt ! nat \<lfloor>i\<rfloor>) else None
      | _ \<Rightarrow> None)"

text \<open>\<^verbatim>\<open>priceRange\<close>: \<open>None\<close> is \<^verbatim>\<open>null\<close>, the pair is \<^verbatim>\<open>{ min, max }\<close>.\<close>

definition priceRange :: "FuelPoint list \<Rightarrow> (number option \<times> number option) option" where
  "priceRange rs =
     (let vals = List.map_filter displayPriceValue rs
      in if length vals = 0 then None
         else let srt = sortBy js_sub vals
              in Some (pick srt (fl (1 / 10)), pick srt (fl (9 / 10))))"

section \<open>Properties\<close>

subsection \<open>The preferred fuel type\<close>

lemma getDisplayPrice_loop_find:
  "getDisplayPrice_loop ps keys =
     (case find (\<lambda>k. truthy (map_of ps k)) keys of
        None \<Rightarrow> None
      | Some k \<Rightarrow> map_option formatPriceLabel (map_of ps k))"
  by (induction keys) (auto split: option.splits)

lemma getDisplayPriceValue_loop_find:
  "getDisplayPriceValue_loop ps keys =
     (case find (\<lambda>k. truthy (map_of ps k)) keys of
        None \<Rightarrow> None
      | Some k \<Rightarrow> Option.bind (map_of ps k) toPounds)"
  by (induction keys) (auto split: option.splits)

lemma find_truthy_Some:
  assumes "find (\<lambda>k. truthy (map_of ps k)) keys = Some k"
  shows "\<exists>v. map_of ps k = Some v \<and> v \<noteq> []"
proof -
  from assms have "truthy (map_of ps k)"
    by (auto simp: find_Some_iff)
  then show ?thesis
    by (cases "map_of ps k") simp_all
qed

text \<open>
  C4: the two functions take the first of the keys E10, E5, B7S, B7P, B10, HVO, in
  that order, whose value in the record is a non-empty string, and compute their result
  from that value alone; when no key has one, both return null. Both are functions of
  the record, so equal records give equal results.
\<close>

theorem getDisplayPrice_first_preferred:
  "(find (\<lambda>k. truthy (map_of ps k)) [''E10'', ''E5'', ''B7S'', ''B7P'', ''B10'', ''HVO''] = Some k
      \<longrightarrow> (\<exists>v. map_of ps k = Some v \<and> v \<noteq> [] \<and>
            getDisplayPrice ps = Some (formatPriceLabel v) \<and>
            getDisplayPriceValue ps = toPounds v)) \<and>
   ((\<forall>k \<in> set [''E10'', ''E5'', ''B7S'', ''B7P'', ''B10'', ''HVO'']. \<not> truthy (map_of ps k))
      \<longrightarrow> getDisplayPrice ps = None \<and> getDisplayPriceValue ps = None)"
proof -
  let ?keys = "[''E10'', ''E5'', ''B7S'', ''B7P'', ''B10'', ''HVO'']"
  have first: "\<exists>v. map_of ps k = Some v \<and> v \<noteq> [] \<and>
            getDisplayPrice ps = Some (formatPriceLabel v) \<and>
            getDisplayPriceValue ps = toPounds v"
    if f: "find (\<lambda>k. truthy (map_of ps k)) ?keys = Some k"
  proof -
    from find_truthy_Some [OF f] obtain v where v: "map_of ps k = Some v" "v \<noteq> []"
      by blast
    have "getDisplayPrice ps = Some (formatPriceLabel v)"
      unfolding getDisplayPrice_def preferred_def getDisplayPrice_loop_find using f v by simp
    moreover have "getDisplayPriceValue ps = toPounds v"
      unfolding getDisplayPriceValue_def preferred_def getDisplayPriceValue_loop_find
      using f v by simp
    ultimately show ?thesis
      using v by simp
  qed
  have none: "getDisplayPrice ps = None \<and> getDisplayPriceValue ps = None"
    if n: "\<forall>k \<in> set ?keys. \<not> truthy (map_of ps k)"
  proof -
    from n have "find (\<lambda>k. truthy (map_of ps k)) ?keys = None"
      by (simp add: find_None_iff)
    then show ?thesis
      unfolding getDisplayPrice_def getDisplayPriceValue_def preferred_def
        getDisplayPrice_loop_find getDisplayPriceValue_loop_find by simp
  qed
  show ?thesis
    apply (rule conjI)
     apply (rule impI, erule first)
    apply (rule impI, erule none)
    done
qed

theorem getDisplayPrice_first_preferred_witness:
  "find (\<lambda>k. truthy (map_of [(''E5'', ''150.9''), (''E10'', []), (''B10'', ''163.9'')] k))
     [''E10'', ''E5'', ''B7S'', ''B7P'', ''B10'', ''HVO''] = Some ''E5'' \<and>
   getDisplayPrice [(''E5'', ''150.9''), (''E10'', []), (''B10'', ''163.9'')] = Some (formatPriceLabel ''150.9'') \<and>
   getDisplayPriceValue [(''E5'', ''150.9''), (''E10'', []), (''B10'', ''163.9'')] = toPounds ''150.9'' \<and>
   find (\<lambda>k. truthy (map_of [(''X'', ''1'')] k))
     [''E10'', ''E5'', ''B7S'', ''B7P'', ''B10'', ''HVO''] = None \<and>
   getDisplayPrice [(''X'', ''1'')] = None \<and> getDisplayPriceValue [(''X'', ''1'')] = None"
  using getDisplayPrice_first_preferred [of "[(''E5'', ''150.9''), (''E10'', []), (''B10'', ''163.9'')]" "''E5''"]
    getDisplayPrice_first_preferred [of "[(''X'', ''1'')]" "''E5''"]
  by simp

text \<open>
  C8: when the value of the first preferred key with a non-empty value does not parse to
  a finite number, \<^verbatim>\<open>getDisplayPriceValue\<close> returns null, whatever the later keys hold,
  and \<^verbatim>\<open>getDisplayPrice\<close> returns that value unchanged.
\<close>

theorem unparseable_first_price:
  assumes "find (\<lambda>k. truthy (map_of ps k)) [''E10'', ''E5'', ''B7S'', ''B7P'', ''B10'', ''HVO''] = Some k"
    and "map_of ps k = Some v"
    and "\<not> isFinite (parseFloat v)"
  shows "getDisplayPriceValue ps = None \<and> getDisplayPrice ps = Some v"
proof -
  have "getDisplayPriceValue ps = toPounds v"
    unfolding getDisplayPriceValue_def preferred_def getDisplayPriceValue_loop_find
    using assms by simp
  moreover have "getDisplayPrice ps = Some (formatPriceLabel v)"
    unfolding getDisplayPrice_def preferred_def getDisplayPrice_loop_find
    using assms by simp
  ultimately show ?thesis
    using assms(3) by (simp add: toPounds_def formatPriceLabel_def)
qed

lemma parseFloat_NA: "parseFloat ''N/A'' = NaN"
  by (simp add: parseFloat_def parseUnsigned_def isWhiteSpace_def isDigit_def startsWith_def)

theorem unparseable_first_price_witness:
  "find (\<lambda>k. truthy (map_of [(''E5'', ''150.9''), (''E10'', ''N/A'')] k))
     [''E10'', ''E5'', ''B7S'', ''B7P'', ''B10'', ''HVO''] = Some ''E10'' \<and>
   map_of [(''E5'', ''150.9''), (''E10'', ''N/A'')] ''E10'' = Some ''N/A'' \<and>
   \<not> isFinite (parseFloat ''N/A'') \<and>
   map_of [(''E5'', ''150.9''), (''E10'', ''N/A'')] ''E5'' = Some ''150.9'' \<and>
   getDisplayPriceValue [(''E5'', ''150.9''), (''E10'', ''N/A'')] = None \<and>
   getDisplayPrice [(''E5'', ''150.9''), (''E10'', ''N/A'')] = Some ''N/A''"
  using unparseable_first_price [of "[(''E5'', ''150.9''), (''E10'', ''N/A'')]" "''E10''" "''N/A''"]
  by (simp add: parseFloat_NA)

subsection \<open>Rows and points\<close>

lemma parseFloat_empty: "parseFloat [] = NaN"
  by (simp add: parseFloat_def)

lemma parseFloat_zero: "parseFloat ''0'' = Fin 0"
  by (simp add: parseFloat_def parseUnsigned_def isWhiteSpace_def isDigit_def startsWith_def
      decimalValue_def natOfDigits_def fl_def rnd_def)

lemma toNumber_finite: "toNumber s = Some x \<Longrightarrow> isFinite x \<and> x = parseFloat s"
  by (auto simp: toNumber_def Let_def split: if_splits)

lemma toNumber_None_iff: "toNumber s = None \<longleftrightarrow> \<not> isFinite (parseFloat s)"
  by (simp add: toNumber_def Let_def)

lemma toNumber_Some_ex: "(\<exists>x. toNumber s = Some x) \<longleftrightarrow> isFinite (parseFloat s)"
  by (simp add: toNumber_def Let_def)

lemma makePoint_fields:
  "lat (makePoint row latv lngv) = latv"
  "lng (makePoint row latv lngv) = lngv"
  "prices (makePoint row latv lngv) = prices_loop row priceKeys []"
  "hasPrices (makePoint row latv lngv) \<longleftrightarrow> prices_loop row priceKeys [] \<noteq> []"
  "id' (makePoint row latv lngv) =
     orElse (map_of row ''forecourts.node_id'') (numToString latv @ '','' @ numToString lngv)"
  "displayPrice (makePoint row latv lngv) =
     (if prices_loop row priceKeys [] \<noteq> [] then getDisplayPrice (prices_loop row priceKeys [])
      else None)"
  "displayPriceValue (makePoint row latv lngv) =
     (if prices_loop row priceKeys [] \<noteq> []
      then getDisplayPriceValue (prices_loop row priceKeys []) else None)"
  by (simp_all add: makePoint_def Let_def)

lemma rowToPoint_Some:
  "rowToPoint row = Some p \<longleftrightarrow>
     (\<exists>latv lngv.
        toNumber (nullish (map_of row ''forecourts.location.latitude'') []) = Some latv \<and>
        toNumber (nullish (map_of row ''forecourts.location.longitude'') []) = Some lngv \<and>
        p = makePoint row latv lngv)"
  unfolding rowToPoint_def by (simp split: option.splits) blast

lemma rowToPoint_Some_iff:
  "rowToPoint row \<noteq> None \<longleftrightarrow>
     isFinite (parseFloat (nullish (map_of row ''forecourts.location.latitude'') [])) \<and>
     isFinite (parseFloat (nullish (map_of row ''forecourts.location.longitude'') []))"
  unfolding rowToPoint_def toNumber_Some_ex [symmetric]
  by (simp split: option.splits)

lemma rowToPoint_coords:
  assumes "rowToPoint row = Some p"
  shows "lat p = parseFloat (nullish (map_of row ''forecourts.location.latitude'') [])"
    and "lng p = parseFloat (nullish (map_of row ''forecourts.location.longitude'') [])"
    and "isFinite (lat p)" and "isFinite (lng p)"
proof -
  from assms obtain latv lngv where
    la: "toNumber (nullish (map_of row ''forecourts.location.latitude'') []) = Some latv" and
    ln: "toNumber (nullish (map_of row ''forecourts.location.longitude'') []) = Some lngv" and
    p: "p = makePoint row latv lngv"
    unfolding rowToPoint_Some by blast
  note fa = toNumber_finite [OF la, THEN conjunct1] and ea = toNumber_finite [OF la, THEN conjunct2]
  note fn = toNumber_finite [OF ln, THEN conjunct1] and en = toNumber_finite [OF ln, THEN conjunct2]
  show "lat p = parseFloat (nullish (map_of row ''forecourts.location.latitude'') [])"
    unfolding p makePoint_fields by (rule ea)
  show "lng p = parseFloat (nullish (map_of row ''forecourts.location.longitude'') [])"
    unfolding p makePoint_fields by (rule en)
  show "isFinite (lat p)"
    unfolding p makePoint_fields by (rule fa)
  show "isFinite (lng p)"
    unfolding p makePoint_fields by (rule fn)
qed

lemma points_loop_acc: "points_loop rs acc = acc @ List.map_filter rowToPoint rs"
  by (induction rs arbitrary: acc) (simp_all add: List.map_filter_simps split: option.splits)

lemma points_loop_set:
  "p \<in> set (points_loop rs []) \<longleftrightarrow> (\<exists>row \<in> set rs. rowToPoint row = Some p)"
  unfolding points_loop_acc
  by (induction rs) (auto simp: List.map_filter_simps split: option.splits)

text \<open>
  C2: a row gives a point exactly when its latitude and its longitude parse to finite
  numbers, a missing column being read as the empty string; the points of the result
  are those of the rows that give one, in order, each with finite coordinates; and the
  error message after parsing depends on the parser's errors only, not on the rows.
\<close>

theorem row_kept_iff_finite_coordinates:
  "(rowToPoint row \<noteq> None \<longleftrightarrow>
      isFinite (parseFloat (nullish (map_of row ''forecourts.location.latitude'') [])) \<and>
      isFinite (parseFloat (nullish (map_of row ''forecourts.location.longitude'') []))) \<and>
   (map_of row ''forecourts.location.latitude'' = None \<or>
    map_of row ''forecourts.location.longitude'' = None \<longrightarrow> rowToPoint row = None) \<and>
   rows (complete_callback \<lparr>data = rs, errors = es\<rparr> st) = List.map_filter rowToPoint rs \<and>
   (\<forall>p \<in> set (rows (complete_callback \<lparr>data = rs, errors = es\<rparr> st)).
      isFinite (lat p) \<and> isFinite (lng p)) \<and>
   parseError (complete_callback \<lparr>data = rs, errors = es\<rparr> st) =
     (case es of [] \<Rightarrow> parseError st | e # _ \<Rightarrow> e)"
proof -
  have missing: "rowToPoint row = None"
    if "map_of row ''forecourts.location.latitude'' = None \<or>
        map_of row ''forecourts.location.longitude'' = None"
    using that rowToPoint_Some_iff [of row] by (auto simp: parseFloat_empty)
  have rs: "rows (complete_callback \<lparr>data = rs, errors = es\<rparr> st) = List.map_filter rowToPoint rs"
    by (simp add: complete_callback_def points_loop_acc split: list.splits)
  have fin: "isFinite (lat p) \<and> isFinite (lng p)"
    if "p \<in> set (rows (complete_callback \<lparr>data = rs, errors = es\<rparr> st))" for p
  proof -
    from that have "p \<in> set (points_loop rs [])"
      by (simp add: rs points_loop_acc)
    then obtain row where "rowToPoint row = Some p"
      unfolding points_loop_set by blast
    then show ?thesis
      using rowToPoint_coords(3,4) by blast
  qed
  have err: "parseError (complete_callback \<lparr>data = rs, errors = es\<rparr> st) =
     (case es of [] \<Rightarrow> parseError st | e # _ \<Rightarrow> e)"
    by (simp add: complete_callback_def split: list.splits)
  show ?thesis
    using rowToPoint_Some_iff [of row] missing rs fin err by simp
qed

theorem row_kept_iff_finite_coordinates_witness:
  "rowToPoint [(''forecourts.location.latitude'', ''0''), (''forecourts.location.longitude'', ''0'')] \<noteq> None \<and>
   rowToPoint [(''forecourts.location.latitude'', ''0'')] = None \<and>
   list_all (\<lambda>p. isFinite (lat p) \<and> isFinite (lng p))
     (rows (complete_callback \<lparr>data = [[(''forecourts.location.latitude'', ''0'')]], errors = []\<rparr>
        \<lparr>fileName = [], rows = [], parseError = []\<rparr>)) \<and>
   parseError (complete_callback \<lparr>data = [[(''forecourts.location.latitude'', ''0'')]], errors = []\<rparr>
        \<lparr>fileName = [], rows = [], parseError = []\<rparr>) = []"
  using row_kept_iff_finite_coordinates
      [of "[(''forecourts.location.latitude'', ''0''), (''forecourts.location.longitude'', ''0'')]"
        "[[(''forecourts.location.latitude'', ''0'')]]" "[]"
        "\<lparr>fileName = [], rows = [], parseError = []\<rparr>"]
    row_kept_iff_finite_coordinates
      [of "[(''forecourts.location.latitude'', ''0'')]"
        "[[(''forecourts.location.latitude'', ''0'')]]" "[]"
        "\<lparr>fileName = [], rows = [], parseError = []\<rparr>"]
  by (simp add: parseFloat_zero list_all_iff)

subsection \<open>The prices of a point\<close>

lemma update_not_Nil: "AList.update k v al \<noteq> []"
  by (cases al) auto

lemma prices_loop_Nil_iff:
  "prices_loop row keys acc = [] \<longleftrightarrow> acc = [] \<and> (\<forall>k \<in> set keys. \<not> truthy (map_of row k))"
  by (induction keys arbitrary: acc) (auto simp: update_not_Nil split: option.splits)

text \<open>
  C6: for a row that is kept, \<^verbatim>\<open>hasPrices\<close> holds exactly when one of the six price
  columns has a non-empty value, and without it both display prices are null.
\<close>

theorem hasPrices_iff_some_price_column:
  assumes "rowToPoint row = Some p"
  shows "(hasPrices p \<longleftrightarrow>
           (\<exists>k \<in> set [''forecourts.fuel_price.E5'', ''forecourts.fuel_price.E10'',
                        ''forecourts.fuel_price.B7P'', ''forecourts.fuel_price.B7S'',
                        ''forecourts.fuel_price.B10'', ''forecourts.fuel_price.HVO''].
              truthy (map_of row k))) \<and>
         (\<not> hasPrices p \<longrightarrow> displayPrice p = None \<and> displayPriceValue p = None)"
proof -
  from assms obtain latv lngv where p: "p = makePoint row latv lngv"
    unfolding rowToPoint_Some by blast
  have "hasPrices p \<longleftrightarrow> (\<exists>k \<in> set priceKeys. truthy (map_of row k))"
    unfolding p makePoint_fields prices_loop_Nil_iff by simp
  moreover have "\<not> hasPrices p \<longrightarrow> displayPrice p = None \<and> displayPriceValue p = None"
    unfolding p makePoint_fields by simp
  ultimately show ?thesis
    unfolding priceKeys_def by (rule conjI)
qed

lemma rowToPoint_zero:
  assumes "map_of row ''forecourts.location.latitude'' = Some ''0''"
    and "map_of row ''forecourts.location.longitude'' = Some ''0''"
  shows "rowToPoint row = Some (makePoint row (Fin 0) (Fin 0))"
  using assms by (simp add: rowToPoint_def toNumber_def parseFloat_zero)

theorem hasPrices_iff_some_price_column_witness:
  "hasPrices (makePoint [(''forecourts.location.latitude'', ''0''),
      (''forecourts.location.longitude'', ''0''), (''forecourts.fuel_price.B7S'', ''151.9'')]
      (Fin 0) (Fin 0)) \<and>
   \<not> hasPrices (makePoint [(''forecourts.location.latitude'', ''0''),
      (''forecourts.location.longitude'', ''0''), (''forecourts.fuel_price.B7S'', [])]
      (Fin 0) (Fin 0)) \<and>
   displayPrice (makePoint [(''forecourts.location.latitude'', ''0''),
      (''forecourts.location.longitude'', ''0''), (''forecourts.fuel_price.B7S'', [])]
      (Fin 0) (Fin 0)) = None \<and>
   displayPriceValue (makePoint [(''forecourts.location.latitude'', ''0''),
      (''forecourts.location.longitude'', ''0''), (''forecourts.fuel_price.B7S'', [])]
      (Fin 0) (Fin 0)) = None"
  using hasPrices_iff_some_price_column [OF rowToPoint_zero,
      of "[(''forecourts.location.latitude'', ''0''),
      (''forecourts.location.longitude'', ''0''), (''forecourts.fuel_price.B7S'', ''151.9'')]"]
    hasPrices_iff_some_price_column [OF rowToPoint_zero,
      of "[(''forecourts.location.latitude'', ''0''),
      (''forecourts.location.longitude'', ''0''), (''forecourts.fuel_price.B7S'', [])]"]
  by simp

subsection \<open>The identifier of a point\<close>



subsection \<open>The test before parsing\<close>

lemma includesStr_single: "includesStr s [c] \<longleftrightarrow> c \<in> set s"
  by (induction s) (auto simp: startsWith_def)

lemma notCsvMessage_not_empty: "notCsvMessage \<noteq> []"
  by (simp add: notCsvMessage_def)

text \<open>
  C5: when the text, without its leading white space, has no comma or starts with
  \<^verbatim>\<open><!DOCTYPE\<close> or with \<^verbatim>\<open><html\<close>, the handler sets the one fixed message and the
  empty list of points, and its result is the same for every parser, which is therefore
  not consulted; for any other text the result is that of the parser's callback on the
  parsed text.
\<close>

theorem onload_rejects_non_csv:
  "(if CHR '','' \<notin> set (trimStart text) \<or> startsWith (trimStart text) ''<!DOCTYPE'' \<or>
       startsWith (trimStart text) ''<html''
    then parseError (onload papa text st) = notCsvMessage \<and>
         notCsvMessage \<noteq> [] \<and>
         rows (onload papa text st) = [] \<and>
         fileName (onload papa text st) = fileName st \<and>
         onload papa' text st = onload papa text st
    else onload papa text st = complete_callback (papa text) st)"
  by (simp add: onload_def looksNotCsv_def includesStr_single notCsvMessage_not_empty)

theorem onload_rejects_non_csv_witness:
  "parseError (onload (\<lambda>t. \<lparr>data = [], errors = [''e'']\<rparr>) '' <html>a,b''
      \<lparr>fileName = ''f'', rows = [], parseError = []\<rparr>) = notCsvMessage \<and>
   rows (onload (\<lambda>t. \<lparr>data = [], errors = [''e'']\<rparr>) '' <html>a,b''
      \<lparr>fileName = ''f'', rows = [], parseError = []\<rparr>) = [] \<and>
   onload (\<lambda>t. \<lparr>data = [], errors = [''e'']\<rparr>) ''a,b''
      \<lparr>fileName = ''f'', rows = [], parseError = []\<rparr> =
   complete_callback \<lparr>data = [], errors = [''e'']\<rparr> \<lparr>fileName = ''f'', rows = [], parseError = []\<rparr>"
  using onload_rejects_non_csv [of "'' <html>a,b''" "\<lambda>t. \<lparr>data = [], errors = [''e'']\<rparr>"
      "\<lparr>fileName = ''f'', rows = [], parseError = []\<rparr>" "\<lambda>t. \<lparr>data = [], errors = [''e'']\<rparr>"]
    onload_rejects_non_csv [of "''a,b''" "\<lambda>t. \<lparr>data = [], errors = [''e'']\<rparr>"
      "\<lparr>fileName = ''f'', rows = [], parseError = []\<rparr>" "\<lambda>t. \<lparr>data = [], errors = [''e'']\<rparr>"]
  by (simp add: trimStart_def isWhiteSpace_def startsWith_def)

subsection \<open>The stored prices\<close>

lemma normalizePrice_replicate:
  "\<exists>n. cell = replicate n (CHR 0x27) @ normalizePrice cell"
proof -
  have "takeWhile (\<lambda>c. c = CHR 0x27) cell =
        replicate (length (takeWhile (\<lambda>c. c = CHR 0x27) cell)) (CHR 0x27)"
    by (induction cell) auto
  then have "cell = replicate (length (takeWhile (\<lambda>c. c = CHR 0x27) cell)) (CHR 0x27) @
        normalizePrice cell"
    unfolding normalizePrice_def by (metis takeWhile_dropWhile_id)
  then show ?thesis ..
qed

lemma normalizePrice_head: "normalizePrice cell = [] \<or> hd (normalizePrice cell) \<noteq> CHR 0x27"
  unfolding normalizePrice_def using hd_dropWhile [of "\<lambda>c. c = CHR 0x27" cell] by blast

lemma normalizePrice_Nil_iff: "normalizePrice cell = [] \<longleftrightarrow> set cell \<subseteq> {CHR 0x27}"
  unfolding normalizePrice_def by (auto simp: dropWhile_eq_Nil_conv)

lemma prices_loop_value:
  assumes "map_of (prices_loop row keys acc) k = Some v"
  shows "map_of acc k = Some v \<or>
         (\<exists>key \<in> set keys. \<exists>cell. lastSegment key = k \<and> map_of row key = Some cell \<and>
            cell \<noteq> [] \<and> v = normalizePrice cell)"
  using assms
proof (induction keys arbitrary: acc)
  case Nil
  then show ?case by simp
next
  case (Cons key keys)
  show ?case
  proof (cases "map_of row key")
    case None
    with Cons.prems have "map_of (prices_loop row keys acc) k = Some v" by simp
    from Cons.IH [OF this] show ?thesis by auto
  next
    case (Some cell)
    show ?thesis
    proof (cases "cell = []")
      case True
      with Some Cons.prems have "map_of (prices_loop row keys acc) k = Some v" by simp
      from Cons.IH [OF this] show ?thesis by auto
    next
      case False
      with Some Cons.prems have
        "map_of (prices_loop row keys (AList.update (lastSegment key) (normalizePrice cell) acc)) k = Some v"
        by simp
      from Cons.IH [OF this] show ?thesis
        using Some False by (auto simp: update_conv' split: if_splits)
    qed
  qed
qed

text \<open>
  C9, as amended: every value stored in the prices of a point produced by parsing comes
  from a non-empty cell of one of the six price columns of its row, under the last
  segment of the column's name; it is that cell without the apostrophes at its head,
  the other characters unchanged, and does not start with an apostrophe; it is empty
  exactly when the cell consists of apostrophes only.
\<close>

theorem stored_price_is_cell_without_leading_apostrophes:
  assumes "p \<in> set (rows (complete_callback \<lparr>data = rs, errors = es\<rparr> st))"
    and "map_of (prices p) k = Some v"
  shows "\<exists>row \<in> set rs. rowToPoint row = Some p \<and>
           (\<exists>key \<in> set priceKeys. \<exists>cell n.
              k = lastSegment key \<and> map_of row key = Some cell \<and> cell \<noteq> [] \<and>
              cell = replicate n (CHR 0x27) @ v \<and>
              (v = [] \<or> hd v \<noteq> CHR 0x27) \<and>
              (v = [] \<longleftrightarrow> set cell \<subseteq> {CHR 0x27}))"
proof -
  from assms(1) have "p \<in> set (points_loop rs [])"
    by (simp add: complete_callback_def split: list.splits)
  then obtain row where row: "row \<in> set rs" "rowToPoint row = Some p"
    unfolding points_loop_set by blast
  from row(2) obtain latv lngv where p: "p = makePoint row latv lngv"
    unfolding rowToPoint_Some by blast
  from assms(2) have "map_of (prices_loop row priceKeys []) k = Some v"
    unfolding p makePoint_fields .
  from prices_loop_value [OF this] obtain key cell where
    kc: "key \<in> set priceKeys" "lastSegment key = k" "map_of row key = Some cell"
      "cell \<noteq> []" "v = normalizePrice cell"
    by auto
  from normalizePrice_replicate [of cell] obtain n where
    n: "cell = replicate n (CHR 0x27) @ v"
    unfolding kc(5) by blast
  have "(v = [] \<or> hd v \<noteq> CHR 0x27) \<and> (v = [] \<longleftrightarrow> set cell \<subseteq> {CHR 0x27})"
    unfolding kc(5) using normalizePrice_head [of cell] normalizePrice_Nil_iff [of cell] by blast
  with kc n row show ?thesis
    by blast
qed

lemma lastSegment_priceKeys:
  "map lastSegment priceKeys = [''E5'', ''E10'', ''B7P'', ''B7S'', ''B10'', ''HVO'']"
  by (simp add: priceKeys_def lastSegment_def)

lemma rows_single_zero:
  assumes "map_of row ''forecourts.location.latitude'' = Some ''0''"
    and "map_of row ''forecourts.location.longitude'' = Some ''0''"
  shows "rows (complete_callback \<lparr>data = [row], errors = []\<rparr> st) = [makePoint row (Fin 0) (Fin 0)]"
  by (simp add: complete_callback_def rowToPoint_zero [OF assms])

theorem stored_price_is_cell_without_leading_apostrophes_witness:
  "\<exists>row \<in> set [[(''forecourts.location.latitude'', ''0''),
        (''forecourts.location.longitude'', ''0''),
        (''forecourts.fuel_price.E5'', [CHR 0x27, CHR 0x27] @ ''150.9'')]].
     rowToPoint row =
       Some (makePoint [(''forecourts.location.latitude'', ''0''),
        (''forecourts.location.longitude'', ''0''),
        (''forecourts.fuel_price.E5'', [CHR 0x27, CHR 0x27] @ ''150.9'')] (Fin 0) (Fin 0)) \<and>
     (\<exists>key \<in> set priceKeys. \<exists>cell n.
        ''E5'' = lastSegment key \<and> map_of row key = Some cell \<and> cell \<noteq> [] \<and>
        cell = replicate n (CHR 0x27) @ ''150.9'' \<and>
        (''150.9'' = [] \<or> hd ''150.9'' \<noteq> CHR 0x27) \<and>
        (''150.9'' = [] \<longleftrightarrow> set cell \<subseteq> {CHR 0x27}))"
proof -
  let ?row = "[(''forecourts.location.latitude'', ''0''),
        (''forecourts.location.longitude'', ''0''),
        (''forecourts.fuel_price.E5'', [CHR 0x27, CHR 0x27] @ ''150.9'')]"
  let ?st = "\<lparr>fileName = [], rows = [], parseError = []\<rparr>"
  have 1: "makePoint ?row (Fin 0) (Fin 0) \<in>
      set (rows (complete_callback \<lparr>data = [?row], errors = []\<rparr> ?st))"
    by (simp add: rows_single_zero)
  have 2: "map_of (prices (makePoint ?row (Fin 0) (Fin 0))) ''E5'' = Some ''150.9''"
    by (simp add: makePoint_fields priceKeys_def lastSegment_def normalizePrice_def)
  show ?thesis
    by (rule stored_price_is_cell_without_leading_apostrophes [OF 1 2])
qed

text \<open>
  C9 as stated fails: a cell that consists of one apostrophe is not empty, so it is
  stored, and the value stored for it is the empty string.
\<close>

theorem stored_price_empty_counterexample:
  "rows (complete_callback
      \<lparr>data = [[(''forecourts.location.latitude'', ''0''),
                (''forecourts.location.longitude'', ''0''),
                (''forecourts.fuel_price.E5'', [CHR 0x27])]],
       errors = []\<rparr>
      \<lparr>fileName = [], rows = [], parseError = []\<rparr>) =
     [makePoint [(''forecourts.location.latitude'', ''0''),
                (''forecourts.location.longitude'', ''0''),
                (''forecourts.fuel_price.E5'', [CHR 0x27])] (Fin 0) (Fin 0)] \<and>
   prices (makePoint [(''forecourts.location.latitude'', ''0''),
                (''forecourts.location.longitude'', ''0''),
                (''forecourts.fuel_price.E5'', [CHR 0x27])] (Fin 0) (Fin 0)) = [(''E5'', [])]"
  by (simp add: rows_single_zero makePoint_fields priceKeys_def lastSegment_def normalizePrice_def)

subsection \<open>Powers of two and the binary exponent\<close>

lemma p2_pos: "0 < (2::rat) powi e"
  by simp

lemma p2_mono: "a \<le> b \<Longrightarrow> (2::rat) powi a \<le> 2 powi b"
  by (rule power_int_increasing) simp_all

lemma p2_less_iff: "(2::rat) powi a < 2 powi b \<longleftrightarrow> a < b"
proof
  assume "(2::rat) powi a < 2 powi b"
  then show "a < b"
    using p2_mono [of b a] by (cases "a < b") auto
next
  assume "a < b"
  then show "(2::rat) powi a < 2 powi b"
    by (rule power_int_strict_increasing) simp
qed

lemma p2_add: "(2::rat) powi (a + b) = 2 powi a * 2 powi b"
  by (rule power_int_add) simp

lemma p2_diff: "(2::rat) powi (a - b) = 2 powi a / 2 powi b"
  by (rule power_int_diff) simp

lemma p2_nat: "0 \<le> e \<Longrightarrow> (2::rat) powi e = of_int (2 ^ nat e)"
  by (simp add: power_int_def)

lemma bitlen_bounds_rat:
  assumes "0 < a"
  shows "(2::rat) powi (bitlen a - 1) \<le> of_int a" and "(of_int a :: rat) < 2 powi bitlen a"
proof -
  from assms have pos: "0 < bitlen a"
    using bitlen_eq_zero_iff [of a] bitlen_nonneg [of a] by (simp add: order.strict_iff_order)
  have "(2::int) ^ nat (bitlen a - 1) \<le> a" and "a < 2 ^ nat (bitlen a)"
    using bitlen_bounds [OF assms] by simp_all
  then have "(of_int ((2::int) ^ nat (bitlen a - 1)) :: rat) \<le> of_int a"
    and "(of_int a :: rat) < of_int (2 ^ nat (bitlen a))"
    by (simp_all only: of_int_le_iff of_int_less_iff)
  then show "(2::rat) powi (bitlen a - 1) \<le> of_int a" and "(of_int a :: rat) < 2 powi bitlen a"
    using pos by (simp_all add: p2_nat)
qed

lemma expo_bounds:
  assumes "x \<noteq> 0"
  shows "2 powi expo x \<le> \<bar>x\<bar>" and "\<bar>x\<bar> < 2 powi (expo x + 1)"
proof -
  obtain a b where q: "quotient_of \<bar>x\<bar> = (a, b)"
    by (cases "quotient_of \<bar>x\<bar>")
  have b: "0 < b"
    using quotient_of_denom_pos [OF q] .
  have x: "\<bar>x\<bar> = of_int a / of_int b"
    using quotient_of_div [OF q] .
  have "0 < \<bar>x\<bar>"
    using assms by simp
  then have a: "0 < a"
    unfolding x using b by (simp add: zero_less_divide_iff)
  define g where "g = bitlen a - bitlen b"
  note ba = bitlen_bounds_rat [OF a] and bb = bitlen_bounds_rat [OF b]
  have bpos: "(0::rat) < of_int b"
    using b by simp
  have up: "\<bar>x\<bar> < 2 powi (g + 1)"
  proof -
    have "of_int a < (2::rat) powi bitlen a"
      by (rule ba(2))
    also have "\<dots> = 2 powi (g + 1) * 2 powi (bitlen b - 1)"
      unfolding g_def p2_add [symmetric] by simp
    also have "\<dots> \<le> 2 powi (g + 1) * of_int b"
      by (rule mult_left_mono [OF bb(1)]) simp
    finally show ?thesis
      unfolding x using bpos by (simp add: pos_divide_less_eq)
  qed
  have lo: "2 powi (g - 1) \<le> \<bar>x\<bar>"
  proof -
    have "2 powi (g - 1) * of_int b \<le> 2 powi (g - 1) * (2::rat) powi bitlen b"
      by (rule mult_left_mono [OF less_imp_le [OF bb(2)]]) simp
    also have "\<dots> = 2 powi (bitlen a - 1)"
      unfolding g_def p2_add [symmetric] by simp
    also have "\<dots> \<le> of_int a"
      by (rule ba(1))
    finally show ?thesis
      unfolding x using bpos by (simp add: pos_le_divide_eq)
  qed
  have e: "expo x = (if 2 powi g \<le> \<bar>x\<bar> then g else g - 1)"
    unfolding expo_def q g_def by (simp add: Let_def)
  show "2 powi expo x \<le> \<bar>x\<bar>"
    using lo unfolding e by simp
  show "\<bar>x\<bar> < 2 powi (expo x + 1)"
    using up unfolding e by (simp add: not_le)
qed

lemma expo_unique:
  assumes "2 powi e \<le> \<bar>x\<bar>" and "\<bar>x\<bar> < 2 powi (e + 1)"
  shows "expo x = e"
proof -
  have "0 < \<bar>x\<bar>"
    using p2_pos assms(1) by (rule less_le_trans)
  then have "x \<noteq> 0"
    by simp
  note b = expo_bounds [OF this]
  have "(2::rat) powi expo x < 2 powi (e + 1)"
    using b(1) assms(2) by (rule le_less_trans)
  moreover have "(2::rat) powi e < 2 powi (expo x + 1)"
    using assms(1) b(2) by (rule le_less_trans)
  ultimately show ?thesis
    unfolding p2_less_iff by simp
qed

lemma expo_neg: "expo (- x) = expo x"
  by (simp add: expo_def)

lemma expo_less: "x \<noteq> 0 \<Longrightarrow> \<bar>x\<bar> < 2 powi e \<Longrightarrow> expo x < e"
  using expo_bounds(1) [of x] p2_less_iff [of "expo x" e] by (meson le_less_trans)

lemma expo_ge: "2 powi e \<le> \<bar>x\<bar> \<Longrightarrow> e \<le> expo x"
proof -
  assume a: "2 powi e \<le> \<bar>x\<bar>"
  have "0 < \<bar>x\<bar>"
    using p2_pos a by (rule less_le_trans)
  then have "x \<noteq> 0"
    by simp
  from expo_bounds(2) [OF this] a have "(2::rat) powi e < 2 powi (expo x + 1)"
    by (rule le_less_trans [rotated])
  then show ?thesis
    unfolding p2_less_iff by simp
qed

subsection \<open>Rounding to an integer\<close>

lemma round_even_int: "round_even (of_int m) = m"
  by (simp add: round_even_def)

lemma round_even_floor: "\<lfloor>x\<rfloor> \<le> round_even x" and round_even_ceil: "round_even x \<le> \<lfloor>x\<rfloor> + 1"
  by (simp_all add: round_even_def Let_def)

lemma round_even_mono:
  assumes "x \<le> y"
  shows "round_even x \<le> round_even y"
proof (cases "\<lfloor>x\<rfloor> = \<lfloor>y\<rfloor>")
  case True
  have "x - of_int \<lfloor>y\<rfloor> \<le> y - of_int \<lfloor>y\<rfloor>"
    using assms by simp
  then show ?thesis
    unfolding round_even_def Let_def True by auto
next
  case False
  with assms have "\<lfloor>x\<rfloor> < \<lfloor>y\<rfloor>"
    using floor_mono [of x y] by simp
  then have "round_even x \<le> \<lfloor>y\<rfloor>"
    using round_even_ceil [of x] by simp
  then show ?thesis
    using round_even_floor [of y] by simp
qed

lemma round_even_neg: "round_even (- x) = - round_even x"
proof (cases "x = of_int \<lfloor>x\<rfloor>")
  case True
  then obtain m where "x = of_int m" ..
  then show ?thesis
    using round_even_int [of m] round_even_int [of "- m"] by simp
next
  case False
  moreover have "of_int \<lfloor>x\<rfloor> \<le> x"
    by (rule of_int_floor_le)
  ultimately have lt: "of_int \<lfloor>x\<rfloor> < x"
    by linarith
  have "x < of_int \<lfloor>x\<rfloor> + 1"
    by linarith
  with lt have f: "\<lfloor>- x\<rfloor> = - \<lfloor>x\<rfloor> - 1"
    by (intro floor_unique) simp_all
  have d: "- x - of_int \<lfloor>- x\<rfloor> = 1 - (x - of_int \<lfloor>x\<rfloor>)"
    unfolding f by simp
  show ?thesis
    unfolding round_even_def [of "- x"] Let_def d
    unfolding f round_even_def [of x] Let_def
    by auto
qed

lemma round_even_le: "x \<le> of_int m \<Longrightarrow> round_even x \<le> m"
  using round_even_mono [of x "of_int m"] by (simp add: round_even_int)

lemma round_even_ge: "of_int m \<le> x \<Longrightarrow> m \<le> round_even x"
  using round_even_mono [of "of_int m" x] by (simp add: round_even_int)

lemma round_even_nonneg: "0 \<le> x \<Longrightarrow> 0 \<le> round_even x"
  using round_even_ge [of 0 x] by simp

subsection \<open>Rounding to binary64 precision\<close>

text \<open>The quantum of a number: the distance of the binary64 values around it.\<close>

lemma rnd_alt:
  "x \<noteq> 0 \<Longrightarrow>
     rnd x = of_int (round_even (x / 2 powi (max (expo x) (- 1022) - 52))) *
       2 powi (max (expo x) (- 1022) - 52)"
  by (simp add: rnd_def Let_def)

lemma rnd_zero: "rnd 0 = 0"
  by (simp add: rnd_def)

lemma rnd_neg: "rnd (- x) = - rnd x"
  by (cases "x = 0") (simp_all add: rnd_zero rnd_alt expo_neg round_even_neg)

lemma rnd_nonneg: "0 \<le> x \<Longrightarrow> 0 \<le> rnd x"
  by (cases "x = 0") (simp_all add: rnd_zero rnd_alt round_even_nonneg)

lemma rnd_nonpos: "x \<le> 0 \<Longrightarrow> rnd x \<le> 0"
  using rnd_nonneg [of "- x"] by (simp add: rnd_neg)

lemma rnd_upper:
  assumes "0 < x"
  shows "rnd x \<le> 2 powi (max (expo x) (- 1022) + 1)"
proof -
  define a where "a = max (expo x) (- 1022)"
  have x0: "x \<noteq> 0"
    using assms by simp
  have "x < 2 powi (expo x + 1)"
    using expo_bounds(2) [OF x0] assms by simp
  also have "\<dots> \<le> 2 powi (a + 1)"
    by (rule p2_mono) (simp add: a_def)
  finally have "x / 2 powi (a - 52) \<le> 2 powi (a + 1) / 2 powi (a - 52)"
    by (simp add: divide_right_mono)
  also have "\<dots> = of_int (2 ^ 53)"
    unfolding p2_diff [symmetric] by simp
  finally have "round_even (x / 2 powi (a - 52)) \<le> 2 ^ 53"
    by (rule round_even_le)
  then have "(of_int (round_even (x / 2 powi (a - 52))) :: rat) \<le> of_int (2 ^ 53)"
    by (simp only: of_int_le_iff)
  then have "rnd x \<le> of_int (2 ^ 53) * 2 powi (a - 52)"
    unfolding rnd_alt [OF x0] a_def [symmetric] by (simp add: mult_right_mono)
  also have "\<dots> = 2 powi 53 * 2 powi (a - 52)"
    by simp
  also have "\<dots> = 2 powi (a + 1)"
    unfolding p2_add [symmetric] by (simp add: add.commute)
  finally show ?thesis
    unfolding a_def .
qed

lemma rnd_lower:
  assumes "0 < x" and "- 1022 \<le> expo x"
  shows "2 powi expo x \<le> rnd x"
proof -
  have x0: "x \<noteq> 0"
    using assms by simp
  have a: "max (expo x) (- 1022) = expo x"
    using assms(2) by simp
  have "(of_int (2 ^ 52) :: rat) = 2 powi expo x / 2 powi (expo x - 52)"
    unfolding p2_diff [symmetric] by simp
  also have "\<dots> \<le> x / 2 powi (expo x - 52)"
    using expo_bounds(1) [OF x0] assms(1) by (simp add: divide_right_mono)
  finally have "2 ^ 52 \<le> round_even (x / 2 powi (expo x - 52))"
    by (rule round_even_ge)
  then have "(of_int (2 ^ 52) :: rat) \<le> of_int (round_even (x / 2 powi (expo x - 52)))"
    by (simp only: of_int_le_iff)
  then have "of_int (2 ^ 52) * 2 powi (expo x - 52) \<le> rnd x"
    unfolding rnd_alt [OF x0] a by (simp add: mult_right_mono)
  moreover have "(of_int (2 ^ 52) :: rat) * 2 powi (expo x - 52) = 2 powi 52 * 2 powi (expo x - 52)"
    by simp
  moreover have "(2::rat) powi 52 * 2 powi (expo x - 52) = 2 powi expo x"
    unfolding p2_add [symmetric] by simp
  ultimately show ?thesis
    by simp
qed

lemma rnd_mono_pos:
  assumes "0 < x" and "x \<le> y"
  shows "rnd x \<le> rnd y"
proof -
  have x0: "x \<noteq> 0" and y0: "y \<noteq> 0" and ypos: "0 < y"
    using assms by simp_all
  define ax where "ax = max (expo x) (- 1022)"
  define ay where "ay = max (expo y) (- 1022)"
  have "2 powi expo x \<le> \<bar>y\<bar>"
    using expo_bounds(1) [OF x0] assms by simp
  then have "expo x \<le> expo y"
    by (rule expo_ge)
  then have le: "ax \<le> ay"
    by (simp add: ax_def ay_def)
  show ?thesis
  proof (cases "ax = ay")
    case True
    have "x / 2 powi (ay - 52) \<le> y / 2 powi (ay - 52)"
      using assms(2) by (simp add: divide_right_mono)
    then have "round_even (x / 2 powi (ay - 52)) \<le> round_even (y / 2 powi (ay - 52))"
      by (rule round_even_mono)
    then show ?thesis
      unfolding rnd_alt [OF x0] rnd_alt [OF y0] ax_def [symmetric] ay_def [symmetric] True
      by (simp add: mult_right_mono)
  next
    case False
    with le have lt: "ax < ay"
      by simp
    then have ey: "ay = expo y" and ey': "- 1022 \<le> expo y"
      unfolding ax_def ay_def by linarith+
    have "rnd x \<le> 2 powi (ax + 1)"
      using rnd_upper [OF assms(1)] by (simp add: ax_def)
    also have "\<dots> \<le> 2 powi ay"
      by (rule p2_mono) (use lt in simp)
    also have "\<dots> \<le> rnd y"
      unfolding ey by (rule rnd_lower [OF ypos ey'])
    finally show ?thesis .
  qed
qed

lemma rnd_mono:
  assumes "x \<le> y"
  shows "rnd x \<le> rnd y"
proof -
  consider "0 < x" | "x \<le> 0" "0 \<le> y" | "y < 0"
    using assms by linarith
  then show ?thesis
  proof cases
    case 1
    then show ?thesis
      using assms by (rule rnd_mono_pos)
  next
    case 2
    then show ?thesis
      using rnd_nonpos [of x] rnd_nonneg [of y] by simp
  next
    case 3
    then have "0 < - y" and "- y \<le> - x"
      using assms by simp_all
    then have "rnd (- y) \<le> rnd (- x)"
      by (rule rnd_mono_pos)
    then show ?thesis
      by (simp add: rnd_neg)
  qed
qed

text \<open>Numbers with a mantissa below \<open>2 ^ 53\<close> and an exponent from \<open>-1074\<close> are not changed.\<close>

lemma rnd_repr:
  assumes m: "\<bar>m\<bar> < 2 ^ 53" and j: "- 1074 \<le> j"
  shows "rnd (of_int m * 2 powi j) = of_int m * 2 powi j"
proof (cases "m = 0")
  case True
  then show ?thesis
    by (simp add: rnd_zero)
next
  case False
  define x :: rat where "x = of_int m * 2 powi j"
  have x0: "x \<noteq> 0"
    using False by (simp add: x_def)
  define a where "a = max (expo x) (- 1022)"
  have "\<bar>x\<bar> = of_int \<bar>m\<bar> * 2 powi j"
    by (simp add: x_def abs_mult)
  also have "\<dots> < of_int (2 ^ 53) * 2 powi j"
    using m by (intro mult_strict_right_mono) (simp_all only: of_int_less_iff p2_pos)
  also have "\<dots> = 2 powi 53 * 2 powi j"
    by simp
  also have "\<dots> = 2 powi (53 + j)"
    unfolding p2_add [symmetric] ..
  finally have "expo x < 53 + j"
    by (rule expo_less [OF x0])
  with j have n: "0 \<le> j - a + 52"
    by (simp add: a_def)
  have "x / 2 powi (a - 52) = of_int m * (2 powi j / 2 powi (a - 52))"
    by (simp add: x_def)
  also have "2 powi j / 2 powi (a - 52) = (2::rat) powi (j - a + 52)"
    unfolding p2_diff [symmetric] by (simp add: algebra_simps)
  also have "\<dots> = of_int (2 ^ nat (j - a + 52))"
    by (rule p2_nat [OF n])
  finally have "x / 2 powi (a - 52) = of_int (m * 2 ^ nat (j - a + 52))"
    by simp
  then have "round_even (x / 2 powi (a - 52)) = m * 2 ^ nat (j - a + 52)"
    by (simp only: round_even_int)
  then have "rnd x = of_int (m * 2 ^ nat (j - a + 52)) * 2 powi (a - 52)"
    unfolding rnd_alt [OF x0] a_def [symmetric] by simp
  also have "\<dots> = of_int m * (2 powi (j - a + 52) * 2 powi (a - 52))"
    using p2_nat [OF n] by simp
  also have "2 powi (j - a + 52) * 2 powi (a - 52) = (2::rat) powi j"
    unfolding p2_add [symmetric] by simp
  finally show ?thesis
    unfolding x_def .
qed

lemma rnd_int: "\<bar>m\<bar> < 2 ^ 53 \<Longrightarrow> rnd (of_int m) = of_int m"
  using rnd_repr [of m 0] by simp

lemma rnd_p2: "- 1074 \<le> j \<Longrightarrow> rnd (2 powi j) = 2 powi j"
  using rnd_repr [of 1 j] by simp

text \<open>Every rounded number is a multiple of \<open>2 powi (-1074)\<close> and is not changed by rounding again.\<close>

lemma rnd_mantissa:
  assumes "x \<noteq> 0"
  shows "\<bar>round_even (x / 2 powi (max (expo x) (- 1022) - 52))\<bar> \<le> 2 ^ 53"
proof -
  define a where "a = max (expo x) (- 1022)"
  have "\<bar>x\<bar> < 2 powi (expo x + 1)"
    by (rule expo_bounds(2) [OF assms])
  also have "\<dots> \<le> 2 powi (a + 1)"
    by (rule p2_mono) (simp add: a_def)
  finally have "\<bar>x\<bar> / 2 powi (a - 52) \<le> 2 powi (a + 1) / 2 powi (a - 52)"
    by (simp add: divide_right_mono)
  also have "\<dots> = of_int (2 ^ 53)"
    unfolding p2_diff [symmetric] by simp
  finally have b: "\<bar>x\<bar> / 2 powi (a - 52) \<le> of_int (2 ^ 53)" .
  have "x / 2 powi (a - 52) \<le> \<bar>x\<bar> / 2 powi (a - 52)"
    by (rule divide_right_mono) simp_all
  moreover have "- \<bar>x\<bar> / 2 powi (a - 52) \<le> x / 2 powi (a - 52)"
    by (rule divide_right_mono) simp_all
  ultimately have u: "x / 2 powi (a - 52) \<le> of_int (2 ^ 53)"
    and l: "of_int (- (2 ^ 53)) \<le> x / 2 powi (a - 52)"
    using b by simp_all
  have "round_even (x / 2 powi (a - 52)) \<le> 2 ^ 53"
    using u by (rule round_even_le)
  moreover have "- (2 ^ 53) \<le> round_even (x / 2 powi (a - 52))"
    using l by (rule round_even_ge)
  ultimately show ?thesis
    unfolding a_def by (simp add: abs_le_iff)
qed

lemma rnd_idem: "rnd (rnd x) = rnd x"
proof (cases "x = 0")
  case True
  then show ?thesis
    by (simp add: rnd_zero)
next
  case False
  define a where "a = max (expo x) (- 1022)"
  define M where "M = round_even (x / 2 powi (a - 52))"
  have r: "rnd x = of_int M * 2 powi (a - 52)"
    unfolding rnd_alt [OF False] M_def a_def ..
  have M: "\<bar>M\<bar> \<le> 2 ^ 53"
    using rnd_mantissa [OF False] by (simp add: M_def a_def)
  have a: "- 1074 \<le> a - 52"
    by (simp add: a_def)
  show ?thesis
  proof (cases "\<bar>M\<bar> < 2 ^ 53")
    case True
    then show ?thesis
      unfolding r using a by (rule rnd_repr)
  next
    case False
    with M have "\<bar>M\<bar> = 2 ^ 53"
      by simp
    then consider "M = 2 ^ 53" | "M = - (2 ^ 53)"
      by (auto simp: abs_if split: if_splits)
    then show ?thesis
    proof cases
      case 1
      have "rnd x = 2 powi 53 * 2 powi (a - 52)"
        unfolding r 1 by simp
      also have "\<dots> = 2 powi (a + 1)"
        unfolding p2_add [symmetric] by (simp add: add.commute)
      finally have e: "rnd x = 2 powi (a + 1)" .
      show ?thesis
        unfolding e by (rule rnd_p2) (use a in simp)
    next
      case 2
      have "rnd x = - (2 powi 53 * 2 powi (a - 52))"
        unfolding r 2 by simp
      also have "2 powi 53 * 2 powi (a - 52) = (2::rat) powi (a + 1)"
        unfolding p2_add [symmetric] by (simp add: add.commute)
      finally have e: "rnd x = - (2 powi (a + 1))" .
      have "- 1074 \<le> a + 1"
        using a by simp
      then show ?thesis
        unfolding e rnd_neg by (simp only: rnd_p2)
    qed
  qed
qed

lemma rnd_grid: "\<exists>k. rnd x = of_int k * 2 powi (- 1074)"
proof (cases "x = 0")
  case True
  then have "rnd x = of_int 0 * 2 powi (- 1074)"
    by (simp add: rnd_zero)
  then show ?thesis ..
next
  case False
  define a where "a = max (expo x) (- 1022)"
  define M where "M = round_even (x / 2 powi (a - 52))"
  have n: "0 \<le> a - 52 + 1074"
    by (simp add: a_def)
  have "rnd x = of_int M * 2 powi (a - 52)"
    unfolding rnd_alt [OF False] M_def a_def ..
  also have "(2::rat) powi (a - 52) = 2 powi (a - 52 + 1074) * 2 powi (- 1074)"
    unfolding p2_add [symmetric] by simp
  also have "(2::rat) powi (a - 52 + 1074) = of_int (2 ^ nat (a - 52 + 1074))"
    by (rule p2_nat [OF n])
  finally have "rnd x = of_int (M * 2 ^ nat (a - 52 + 1074)) * 2 powi (- 1074)"
    by simp
  then show ?thesis ..
qed

text \<open>The difference of two distinct rounded numbers does not round to zero.\<close>

lemma rnd_diff_pos:
  assumes "rnd x = x" and "rnd y = y" and "x < y"
  shows "0 < rnd (y - x)"
proof -
  obtain k where k: "x = of_int k * 2 powi (- 1074)"
    using rnd_grid [of x] assms(1) by auto
  obtain l where l: "y = of_int l * 2 powi (- 1074)"
    using rnd_grid [of y] assms(2) by auto
  have "of_int k * 2 powi (- 1074) < (of_int l :: rat) * 2 powi (- 1074)"
    using assms(3) unfolding k l .
  then have "(of_int k :: rat) < of_int l"
    by (simp only: mult_less_cancel_right_pos [OF p2_pos])
  then have "k + 1 \<le> l"
    by simp
  then have "(of_int (k + 1) :: rat) \<le> of_int l"
    by (simp only: of_int_le_iff)
  then have "of_int (k + 1) * 2 powi (- 1074) \<le> (of_int l :: rat) * 2 powi (- 1074)"
    by (rule mult_right_mono) simp
  then have "2 powi (- 1074) \<le> y - x"
    unfolding k l by (simp add: algebra_simps)
  then have "rnd (2 powi (- 1074)) \<le> rnd (y - x)"
    by (rule rnd_mono)
  moreover have "rnd (2 powi (- 1074)) = 2 powi (- 1074)"
    by (rule rnd_p2) simp
  ultimately have "2 powi (- 1074) \<le> rnd (y - x)"
    by (simp only:)
  with p2_pos show ?thesis
    by (rule less_le_trans)
qed

subsection \<open>The binary64 value of a rational\<close>

lemma fl_cases:
  obtains (Fin) "fl x = Fin (rnd x)" "\<bar>rnd x\<bar> < 2 powi 1024"
  | (PosInf) "fl x = PosInf" "2 powi 1024 \<le> rnd x"
  | (NegInf) "fl x = NegInf" "rnd x \<le> - (2 powi 1024)"
proof (cases "rnd x = 0 \<or> expo (rnd x) < 1024")
  case True
  then have "fl x = Fin (rnd x)"
    by (simp add: fl_def Let_def)
  moreover have "\<bar>rnd x\<bar> < 2 powi 1024"
  proof (cases "rnd x = 0")
    case True
    then show ?thesis by simp
  next
    case False
    with \<open>rnd x = 0 \<or> expo (rnd x) < 1024\<close> have "expo (rnd x) + 1 \<le> 1024"
      by simp
    then have "(2::rat) powi (expo (rnd x) + 1) \<le> 2 powi 1024"
      by (rule p2_mono)
    with expo_bounds(2) [OF False] show ?thesis
      by (rule less_le_trans)
  qed
  ultimately show ?thesis
    by (rule Fin)
next
  case False
  then have nz: "rnd x \<noteq> 0" and e: "1024 \<le> expo (rnd x)"
    by simp_all
  have big: "2 powi 1024 \<le> \<bar>rnd x\<bar>"
    using p2_mono [OF e] expo_bounds(1) [OF nz] by (rule order_trans)
  show ?thesis
  proof (cases "0 < rnd x")
    case True
    with False have "fl x = PosInf"
      by (simp add: fl_def Let_def)
    moreover from big True have "2 powi 1024 \<le> rnd x"
      by simp
    ultimately show ?thesis
      by (rule PosInf)
  next
    case neg: False
    with False have "fl x = NegInf"
      by (simp add: fl_def Let_def)
    moreover from big neg have "rnd x \<le> - (2 powi 1024)"
      by simp
    ultimately show ?thesis
      by (rule NegInf)
  qed
qed

lemma fl_not_NaN: "fl x \<noteq> NaN"
  by (cases x rule: fl_cases) simp_all

lemma fl_Fin_iff: "fl x = Fin y \<longleftrightarrow> y = rnd x \<and> \<bar>rnd x\<bar> < 2 powi 1024"
proof (cases x rule: fl_cases)
  case Fin
  then show ?thesis by auto
next
  case PosInf
  then show ?thesis by auto
next
  case NegInf
  then show ?thesis by auto
qed

lemma fl_PosInf_iff: "fl x = PosInf \<longleftrightarrow> 2 powi 1024 \<le> rnd x"
proof (cases x rule: fl_cases)
  case Fin
  then show ?thesis by auto
next
  case PosInf
  then show ?thesis by auto
next
  case NegInf
  have "- (2 powi 1024) < (2::rat) powi 1024"
    using p2_pos [of 1024] by linarith
  with NegInf show ?thesis by auto
qed

lemma fl_NegInf_iff: "fl x = NegInf \<longleftrightarrow> rnd x \<le> - (2 powi 1024)"
proof (cases x rule: fl_cases)
  case Fin
  then show ?thesis by auto
next
  case PosInf
  have "- (2 powi 1024) < (2::rat) powi 1024"
    using p2_pos [of 1024] by linarith
  with PosInf show ?thesis by auto
next
  case NegInf
  then show ?thesis by auto
qed

lemma is_double_iff: "is_double x \<longleftrightarrow> rnd x = x \<and> \<bar>x\<bar> < 2 powi 1024"
  unfolding is_double_def fl_Fin_iff by auto

lemma fl_is_double: "fl x = Fin y \<Longrightarrow> is_double y"
  unfolding is_double_iff fl_Fin_iff by (simp add: rnd_idem)

lemma is_double_neg: "is_double x \<Longrightarrow> is_double (- x)"
  unfolding is_double_iff by (simp add: rnd_neg)

lemma fl_between:
  assumes "rnd lo = lo" and "rnd hi = hi" and "\<bar>lo\<bar> < 2 powi 1024" and "\<bar>hi\<bar> < 2 powi 1024"
    and "lo \<le> x" and "x \<le> hi"
  shows "fl x = Fin (rnd x) \<and> lo \<le> rnd x \<and> rnd x \<le> hi"
proof -
  have l: "lo \<le> rnd x"
    using rnd_mono [OF assms(5)] assms(1) by simp
  have h: "rnd x \<le> hi"
    using rnd_mono [OF assms(6)] assms(2) by simp
  from l h assms(3,4) have "\<bar>rnd x\<bar> < 2 powi 1024"
    by linarith
  then have "fl x = Fin (rnd x)"
    unfolding fl_Fin_iff by simp
  with l h show ?thesis
    by simp
qed

lemma fl_mono:
  assumes "x \<le> y"
  shows "js_le (fl x) (fl y)"
proof -
  note m = rnd_mono [OF assms]
  have neg: "- (2 powi 1024) < (2::rat) powi 1024"
    using p2_pos [of 1024] by linarith
  show ?thesis
  proof (cases x rule: fl_cases)
    case xF: Fin
    show ?thesis
    proof (cases y rule: fl_cases)
      case Fin
      with xF m show ?thesis by simp
    next
      case PosInf
      with xF show ?thesis by simp
    next
      case NegInf
      with xF m show ?thesis by simp
    qed
  next
    case xP: PosInf
    then have "2 powi 1024 \<le> rnd y"
      using m by simp
    then have "fl y = PosInf"
      unfolding fl_PosInf_iff .
    with xP show ?thesis by simp
  next
    case NegInf
    then show ?thesis
      using fl_not_NaN [of y] by (cases "fl y") simp_all
  qed
qed

subsection \<open>The clamp of \<^verbatim>\<open>priceToColor\<close>\<close>

lemma clamp_value:
  "r \<noteq> NaN \<Longrightarrow> Math_min (Fin 1) (Math_max (Fin 0) r) = Fin (clampUnit r)"
  by (cases r) (auto simp: min_def max_def)

lemma clampUnit_range: "0 \<le> clampUnit r" "clampUnit r \<le> 1"
  by (cases r; simp)+

lemma clampUnit_mono: "js_le r r' \<Longrightarrow> clampUnit r \<le> clampUnit r'"
  by (cases r; cases r') (auto simp: min_def max_def)

subsection \<open>The hue of a price\<close>

lemma js_div_pos_not_NaN:
  assumes "s \<noteq> NaN" and "0 < d"
  shows "js_div s (Fin d) \<noteq> NaN"
  using assms by (cases s) (simp_all add: fl_not_NaN signed_inf_def)

lemma js_div_pos_mono:
  assumes "js_le s s'" and "0 < d"
  shows "js_le (js_div s (Fin d)) (js_div s' (Fin d))"
proof -
  have fin: "js_le (fl (x / d)) (fl (y / d))" if "x \<le> y" for x y
    using that assms(2) by (intro fl_mono divide_right_mono) simp_all
  have top: "js_le a PosInf" if "a \<noteq> NaN" for a
    using that by (cases a) simp_all
  have bot: "js_le NegInf a" if "a \<noteq> NaN" for a
    using that by (cases a) simp_all
  show ?thesis
    using assms fin
    by (cases s; cases s') (simp_all add: signed_inf_def top bot fl_not_NaN)
qed

lemma priceToHue_value:
  assumes "is_double b" and "is_double c" and "b < c" and "isFinite (js_sub (Fin c) (Fin b))"
  shows "js_sub (Fin c) (Fin b) = Fin (rnd (c - b))"
    and "0 < rnd (c - b)"
    and "priceToHue (Fin v) (Fin b) (Fin c) =
      Fin (rnd (120 - rnd (120 * clampUnit (js_div (js_sub (Fin v) (Fin b)) (Fin (rnd (c - b)))))))"
    and "0 \<le> rnd (120 - rnd (120 * clampUnit (js_div (js_sub (Fin v) (Fin b)) (Fin (rnd (c - b))))))"
    and "rnd (120 - rnd (120 * clampUnit (js_div (js_sub (Fin v) (Fin b)) (Fin (rnd (c - b)))))) \<le> 120"
proof -
  define d where "d = rnd (c - b)"
  define r where "r = js_div (js_sub (Fin v) (Fin b)) (Fin d)"
  define t where "t = clampUnit r"
  have rb: "rnd b = b" and rc: "rnd c = c"
    using assms(1,2) by (simp_all add: is_double_iff)
  show dpos: "0 < rnd (c - b)"
    using rb rc assms(3) by (rule rnd_diff_pos)
  show sub: "js_sub (Fin c) (Fin b) = Fin (rnd (c - b))"
    using assms(4) by (cases "c - b" rule: fl_cases) simp_all
  have "js_sub (Fin v) (Fin b) \<noteq> NaN"
    by (simp add: fl_not_NaN)
  then have "r \<noteq> NaN"
    unfolding r_def d_def using dpos by (rule js_div_pos_not_NaN)
  then have clamp: "Math_min (Fin 1) (Math_max (Fin 0) r) = Fin t"
    unfolding t_def by (rule clamp_value)
  have r0: "rnd 0 = 0" and r120: "rnd 120 = 120"
    using rnd_int [of 0] rnd_int [of 120] by simp_all
  have small: "\<bar>0::rat\<bar> < 2 powi 1024" "\<bar>120::rat\<bar> < 2 powi 1024"
    by simp_all
  have "0 \<le> 120 * t" and "120 * t \<le> 120"
    using clampUnit_range [of r] by (simp_all add: t_def)
  with r0 r120 small have m: "fl (120 * t) = Fin (rnd (120 * t))"
      "0 \<le> rnd (120 * t)" "rnd (120 * t) \<le> 120"
    using fl_between [of 0 120 "120 * t"] by simp_all
  then have "0 \<le> 120 - rnd (120 * t)" and "120 - rnd (120 * t) \<le> 120"
    by simp_all
  with r0 r120 small have h: "fl (120 - rnd (120 * t)) = Fin (rnd (120 - rnd (120 * t)))"
      "0 \<le> rnd (120 - rnd (120 * t))" "rnd (120 - rnd (120 * t)) \<le> 120"
    using fl_between [of 0 120 "120 - rnd (120 * t)"] by simp_all
  have "priceToHue (Fin v) (Fin b) (Fin c) = js_sub (Fin 120) (js_mul (Fin 120) (Fin t))"
    unfolding priceToHue_def Let_def sub d_def [symmetric] r_def [symmetric] clamp ..
  also have "\<dots> = Fin (rnd (120 - rnd (120 * t)))"
    using m(1) h(1) by simp
  finally show "priceToHue (Fin v) (Fin b) (Fin c) =
      Fin (rnd (120 - rnd (120 * clampUnit (js_div (js_sub (Fin v) (Fin b)) (Fin (rnd (c - b)))))))"
    unfolding t_def r_def d_def .
  show "0 \<le> rnd (120 - rnd (120 * clampUnit (js_div (js_sub (Fin v) (Fin b)) (Fin (rnd (c - b))))))"
    using h(2) unfolding t_def r_def d_def .
  show "rnd (120 - rnd (120 * clampUnit (js_div (js_sub (Fin v) (Fin b)) (Fin (rnd (c - b)))))) \<le> 120"
    using h(3) unfolding t_def r_def d_def .
qed

lemma hue_low:
  assumes "0 < d" and "v \<le> b"
  shows "clampUnit (js_div (js_sub (Fin v) (Fin b)) (Fin d)) = 0"
proof -
  have "js_le (fl (v - b)) (fl 0)"
    using assms(2) by (intro fl_mono) simp
  then have "js_le (js_div (fl (v - b)) (Fin d)) (js_div (fl 0) (Fin d))"
    using assms(1) by (rule js_div_pos_mono)
  moreover have "fl 0 = Fin 0"
    by (simp add: fl_def rnd_zero)
  moreover have "fl (0 / d) = Fin 0"
    by (simp add: fl_def rnd_zero)
  ultimately have "js_le (js_div (fl (v - b)) (Fin d)) (Fin 0)"
    using assms(1) by simp
  then have "clampUnit (js_div (fl (v - b)) (Fin d)) \<le> clampUnit (Fin 0)"
    by (rule clampUnit_mono)
  then show ?thesis
    using clampUnit_range(1) [of "js_div (fl (v - b)) (Fin d)"] by simp
qed

lemma hue_high:
  assumes "d = rnd (c - b)" and "0 < d" and "\<bar>d\<bar> < 2 powi 1024" and "c \<le> v"
  shows "clampUnit (js_div (js_sub (Fin v) (Fin b)) (Fin d)) = 1"
proof -
  have one: "fl 1 = Fin 1"
    using rnd_int [of 1] by (simp add: fl_Fin_iff)
  have "fl (c - b) = Fin d"
    using assms(1,3) by (simp add: fl_Fin_iff)
  moreover have "js_le (fl (c - b)) (fl (v - b))"
    using assms(4) by (intro fl_mono) simp
  ultimately have "js_le (js_div (Fin d) (Fin d)) (js_div (fl (v - b)) (Fin d))"
    using js_div_pos_mono [OF _ assms(2), of "fl (c - b)" "fl (v - b)"] by simp
  then have "js_le (Fin 1) (js_div (fl (v - b)) (Fin d))"
    using assms(2) one by simp
  then have "clampUnit (Fin 1) \<le> clampUnit (js_div (fl (v - b)) (Fin d))"
    by (rule clampUnit_mono)
  then show ?thesis
    using clampUnit_range(2) [of "js_div (fl (v - b)) (Fin d)"] by simp
qed

lemma hue_antimono:
  assumes "0 < d" and "v \<le> v'"
  shows "rnd (120 - rnd (120 * clampUnit (js_div (js_sub (Fin v') (Fin b)) (Fin d)))) \<le>
         rnd (120 - rnd (120 * clampUnit (js_div (js_sub (Fin v) (Fin b)) (Fin d))))"
proof -
  have "js_le (fl (v - b)) (fl (v' - b))"
    using assms(2) by (intro fl_mono) simp
  then have "js_le (js_div (fl (v - b)) (Fin d)) (js_div (fl (v' - b)) (Fin d))"
    using assms(1) by (rule js_div_pos_mono)
  then have "clampUnit (js_div (fl (v - b)) (Fin d)) \<le> clampUnit (js_div (fl (v' - b)) (Fin d))"
    by (rule clampUnit_mono)
  then have "120 * clampUnit (js_div (fl (v - b)) (Fin d)) \<le>
             120 * clampUnit (js_div (fl (v' - b)) (Fin d))"
    by simp
  then have "rnd (120 * clampUnit (js_div (fl (v - b)) (Fin d))) \<le>
             rnd (120 * clampUnit (js_div (fl (v' - b)) (Fin d)))"
    by (rule rnd_mono)
  then have "120 - rnd (120 * clampUnit (js_div (fl (v' - b)) (Fin d))) \<le>
             120 - rnd (120 * clampUnit (js_div (fl (v - b)) (Fin d)))"
    by simp
  then show ?thesis
    unfolding js_sub.simps by (rule rnd_mono)
qed

lemma is_double_int: "\<bar>m\<bar> < 2 ^ 53 \<Longrightarrow> is_double (of_int m)"
proof -
  assume m: "\<bar>m\<bar> < 2 ^ 53"
  then have "(of_int \<bar>m\<bar> :: rat) < of_int (2 ^ 53)"
    by (simp only: of_int_less_iff)
  also have "\<dots> = 2 powi 53"
    by simp
  also have "\<dots> \<le> 2 powi 1024"
    by (rule p2_mono) simp
  finally have "\<bar>of_int m :: rat\<bar> < 2 powi 1024"
    by simp
  with rnd_int [OF m] show ?thesis
    unfolding is_double_iff by simp
qed

text \<open>
  The hue for a finite value and two binary64 numbers \<open>b < c\<close> whose difference does not
  overflow: it is \<open>120 - 120 * t\<close> for the quotient \<open>t\<close> clamped to the unit interval, a
  finite number between 0 and 120, equal to 120 up to \<open>b\<close> and to 0 from \<open>c\<close> on, and it
  does not increase when the value grows.
\<close>

lemma priceToHue_clamped:
  "(is_double b \<and> is_double c \<and> b < c \<and> isFinite (js_sub (Fin c) (Fin b)) \<longrightarrow>
      (\<exists>h. priceToHue (Fin v) (Fin b) (Fin c) = Fin h \<and>
           priceToColor (Fin v) (Fin b) (Fin c) = ''hsl('' @ numToString (Fin h) @ '', 70%, 45%)'' \<and>
           priceToHue (Fin v) (Fin b) (Fin c) =
             js_sub (Fin 120) (js_mul (Fin 120)
               (Fin (clampUnit (js_div (js_sub (Fin v) (Fin b)) (js_sub (Fin c) (Fin b)))))) \<and>
           0 \<le> h \<and> h \<le> 120 \<and> (v \<le> b \<longrightarrow> h = 120) \<and> (c \<le> v \<longrightarrow> h = 0) \<and>
           (\<forall>v'. v \<le> v' \<longrightarrow>
              (\<exists>h'. priceToHue (Fin v') (Fin b) (Fin c) = Fin h' \<and> h' \<le> h)))) \<and>
   (\<not> isFinite w \<or> js_eq mn mx \<longrightarrow> priceToColor w mn mx = ''#16a34a'')"
proof (rule conjI)
  show "\<not> isFinite w \<or> js_eq mn mx \<longrightarrow> priceToColor w mn mx = ''#16a34a''"
    by (simp add: priceToColor_def)
next
  show "is_double b \<and> is_double c \<and> b < c \<and> isFinite (js_sub (Fin c) (Fin b)) \<longrightarrow>
      (\<exists>h. priceToHue (Fin v) (Fin b) (Fin c) = Fin h \<and>
           priceToColor (Fin v) (Fin b) (Fin c) = ''hsl('' @ numToString (Fin h) @ '', 70%, 45%)'' \<and>
           priceToHue (Fin v) (Fin b) (Fin c) =
             js_sub (Fin 120) (js_mul (Fin 120)
               (Fin (clampUnit (js_div (js_sub (Fin v) (Fin b)) (js_sub (Fin c) (Fin b)))))) \<and>
           0 \<le> h \<and> h \<le> 120 \<and> (v \<le> b \<longrightarrow> h = 120) \<and> (c \<le> v \<longrightarrow> h = 0) \<and>
           (\<forall>v'. v \<le> v' \<longrightarrow>
              (\<exists>h'. priceToHue (Fin v') (Fin b) (Fin c) = Fin h' \<and> h' \<le> h)))"
  proof (intro impI, elim conjE)
    assume db: "is_double b" and dc: "is_double c" and lt: "b < c"
      and fin: "isFinite (js_sub (Fin c) (Fin b))"
    define d where "d = rnd (c - b)"
    define hue where
      "hue u = rnd (120 - rnd (120 * clampUnit (js_div (js_sub (Fin u) (Fin b)) (Fin d))))" for u
    note pv = priceToHue_value [OF db dc lt fin, folded d_def]
    have val: "priceToHue (Fin u) (Fin b) (Fin c) = Fin (hue u)" for u
      unfolding hue_def by (rule pv(3))
    have dsmall: "\<bar>d\<bar> < 2 powi 1024"
      using fin unfolding d_def by (cases "c - b" rule: fl_cases) simp_all
    have r0: "rnd 0 = 0" and r120: "rnd 120 = 120"
      using rnd_int [of 0] rnd_int [of 120] by simp_all
    have "b \<noteq> c"
      using lt by simp
    then have col: "priceToColor (Fin v) (Fin b) (Fin c) =
        ''hsl('' @ numToString (Fin (hue v)) @ '', 70%, 45%)''"
      by (simp add: priceToColor_def val)
    have clamp: "Math_min (Fin 1) (Math_max (Fin 0) (js_div (js_sub (Fin v) (Fin b)) (Fin d))) =
        Fin (clampUnit (js_div (js_sub (Fin v) (Fin b)) (Fin d)))"
      by (rule clamp_value, rule js_div_pos_not_NaN) (simp_all add: fl_not_NaN pv(2))
    have form: "priceToHue (Fin v) (Fin b) (Fin c) =
        js_sub (Fin 120) (js_mul (Fin 120)
          (Fin (clampUnit (js_div (js_sub (Fin v) (Fin b)) (js_sub (Fin c) (Fin b))))))"
      unfolding pv(1) unfolding priceToHue_def Let_def pv(1) clamp ..
    have low: "hue v = 120" if "v \<le> b"
      unfolding hue_def hue_low [OF pv(2) that] by (simp add: r0 r120)
    have high: "hue v = 0" if "c \<le> v"
      unfolding hue_def hue_high [OF d_def pv(2) dsmall that] by (simp add: r0 r120)
    have anti: "\<exists>h'. priceToHue (Fin v') (Fin b) (Fin c) = Fin h' \<and> h' \<le> hue v" if "v \<le> v'" for v'
      using val [of v'] hue_antimono [OF pv(2) that, of b] unfolding hue_def by simp
    have range: "0 \<le> hue v" "hue v \<le> 120"
      unfolding hue_def by (rule pv(4), rule pv(5))
    show "\<exists>h. priceToHue (Fin v) (Fin b) (Fin c) = Fin h \<and>
           priceToColor (Fin v) (Fin b) (Fin c) = ''hsl('' @ numToString (Fin h) @ '', 70%, 45%)'' \<and>
           priceToHue (Fin v) (Fin b) (Fin c) =
             js_sub (Fin 120) (js_mul (Fin 120)
               (Fin (clampUnit (js_div (js_sub (Fin v) (Fin b)) (js_sub (Fin c) (Fin b)))))) \<and>
           0 \<le> h \<and> h \<le> 120 \<and> (v \<le> b \<longrightarrow> h = 120) \<and> (c \<le> v \<longrightarrow> h = 0) \<and>
           (\<forall>v'. v \<le> v' \<longrightarrow>
              (\<exists>h'. priceToHue (Fin v') (Fin b) (Fin c) = Fin h' \<and> h' \<le> h))"
      apply (rule exI [of _ "hue v"])
      apply (intro conjI impI allI)
             apply (rule val)
            apply (rule col)
           apply (rule form)
          apply (rule range(1))
         apply (rule range(2))
        apply (erule low)
       apply (erule high)
      apply (erule anti)
      done
  qed
qed

subsection \<open>The numbers the program computes\<close>

lemma parseUnsigned_double: "parseUnsigned s = Fin x \<Longrightarrow> is_double x"
  unfolding parseUnsigned_def Let_def
  by (simp add: fl_is_double split: if_splits list.splits)

lemma parseFloat_double:
  assumes "parseFloat s = Fin x"
  shows "is_double x"
proof (cases "dropWhile isWhiteSpace s")
  case Nil
  with assms show ?thesis
    by (simp add: parseFloat_def)
next
  case (Cons c r)
  show ?thesis
  proof (cases "c = CHR ''-''")
    case True
    with Cons assms have "js_neg (parseUnsigned r) = Fin x"
      by (simp add: parseFloat_def)
    then have "parseUnsigned r = Fin (- x)"
      by (cases "parseUnsigned r") simp_all
    then have "is_double (- x)"
      by (rule parseUnsigned_double)
    then show ?thesis
      using is_double_neg [of "- x"] by simp
  next
    case False
    with Cons assms have "parseUnsigned r = Fin x \<or> parseUnsigned (c # r) = Fin x"
      by (simp add: parseFloat_def split: if_splits)
    then show ?thesis
      using parseUnsigned_double by blast
  qed
qed

text \<open>A price in pounds is a binary64 number of magnitude at most \<open>2 powi 1018\<close>.\<close>

lemma toPounds_double:
  assumes "toPounds s = Some y"
  shows "\<exists>x. y = Fin x \<and> is_double x \<and> \<bar>x\<bar> \<le> 2 powi 1018"
proof -
  from assms obtain p where p: "parseFloat s = Fin p" and y: "y = js_div (Fin p) (Fin 100)"
    unfolding toPounds_def Let_def by (cases "parseFloat s") (simp_all split: if_splits)
  have "is_double p"
    using p by (rule parseFloat_double)
  then have pb: "\<bar>p\<bar> < 2 powi 1024"
    by (simp add: is_double_iff)
  have y': "y = fl (p / 100)"
    unfolding y by simp
  have "(- 1074::int) \<le> 1018"
    by simp
  then have B1: "rnd (2 powi 1018) = 2 powi 1018"
    by (rule rnd_p2)
  have B2: "rnd (- (2 powi 1018)) = - (2 powi 1018)"
    unfolding rnd_neg B1 ..
  note B = B1 B2
  have "(2::rat) powi 1018 < 2 powi 1024"
    unfolding p2_less_iff by simp
  then have S: "\<bar>- ((2::rat) powi 1018)\<bar> < 2 powi 1024" "\<bar>(2::rat) powi 1018\<bar> < 2 powi 1024"
    by simp_all
  have "(2::rat) powi 1024 = 2 powi 1018 * 2 powi 6"
    unfolding p2_add [symmetric] by simp
  then have "\<bar>p\<bar> < 2 powi 1018 * 64"
    using pb by simp
  then have "\<bar>p / 100\<bar> \<le> 2 powi 1018"
    by simp
  then have "- (2 powi 1018) \<le> p / 100" and "p / 100 \<le> 2 powi 1018"
    by (simp_all add: abs_le_iff)
  from fl_between [OF B(2) B(1) S this]
  have "fl (p / 100) = Fin (rnd (p / 100))" and "\<bar>rnd (p / 100)\<bar> \<le> 2 powi 1018"
    by (simp_all add: abs_le_iff)
  moreover from this(1) have "is_double (rnd (p / 100))"
    by (rule fl_is_double)
  ultimately show ?thesis
    unfolding y' by blast
qed

text \<open>The difference of two prices in pounds does not overflow.\<close>

lemma pounds_difference_finite:
  assumes "\<bar>b\<bar> \<le> 2 powi 1018" and "\<bar>c\<bar> \<le> 2 powi 1018"
  shows "isFinite (js_sub (Fin c) (Fin b))"
proof -
  have "(- 1074::int) \<le> 1019"
    by simp
  then have B1: "rnd (2 powi 1019) = 2 powi 1019"
    by (rule rnd_p2)
  have B2: "rnd (- (2 powi 1019)) = - (2 powi 1019)"
    unfolding rnd_neg B1 ..
  note B = B1 B2
  have "(2::rat) powi 1019 < 2 powi 1024"
    unfolding p2_less_iff by simp
  then have S: "\<bar>- ((2::rat) powi 1019)\<bar> < 2 powi 1024" "\<bar>(2::rat) powi 1019\<bar> < 2 powi 1024"
    by simp_all
  have "(2::rat) powi 1019 = 2 powi 1018 * 2 powi 1"
    unfolding p2_add [symmetric] by simp
  then have "- (2 powi 1019) \<le> c - b" and "c - b \<le> 2 powi 1019"
    using assms by (simp_all add: abs_le_iff)
  from fl_between [OF B(2) B(1) S this] show ?thesis
    by simp
qed

lemma getDisplayPriceValue_toPounds:
  "getDisplayPriceValue_loop ps keys = Some y \<Longrightarrow> \<exists>s. toPounds s = Some y"
  by (induction keys) (auto split: option.splits if_splits)

lemma displayPriceValue_double:
  assumes "rowToPoint row = Some p" and "displayPriceValue p = Some y"
  shows "\<exists>x. y = Fin x \<and> is_double x \<and> \<bar>x\<bar> \<le> 2 powi 1018"
proof -
  from assms(1) obtain latv lngv where p: "p = makePoint row latv lngv"
    unfolding rowToPoint_Some by blast
  from assms(2) have "getDisplayPriceValue (prices_loop row priceKeys []) = Some y"
    unfolding p makePoint_fields by (simp split: if_splits)
  then obtain s where "toPounds s = Some y"
    unfolding getDisplayPriceValue_def using getDisplayPriceValue_toPounds by blast
  then show ?thesis
    by (rule toPounds_double)
qed

subsection \<open>Sorting prices\<close>

lemma compare_sign:
  assumes "is_double x" and "is_double y"
  shows "0 < js_sign (js_sub (Fin x) (Fin y)) \<longleftrightarrow> y < x"
proof (cases "y < x")
  case True
  have "0 < rnd (x - y)"
    using assms True by (intro rnd_diff_pos) (simp_all add: is_double_iff)
  then have "0 < js_sign (fl (x - y))"
    by (cases "x - y" rule: fl_cases) simp_all
  with True show ?thesis
    by simp
next
  case False
  then have "rnd (x - y) \<le> 0"
    by (intro rnd_nonpos) simp
  moreover have "(0::rat) < 2 powi 1024"
    by (rule p2_pos)
  ultimately have "js_sign (fl (x - y)) \<le> 0"
    by (cases "x - y" rule: fl_cases) simp_all
  with False show ?thesis
    by simp
qed

lemma insertBy_insort:
  assumes "is_double x" and "\<forall>y \<in> set ys. is_double y"
  shows "insertBy js_sub (Fin x) (map Fin ys) = map Fin (insort x ys)"
  using assms(2)
proof (induction ys)
  case Nil
  then show ?case by simp
next
  case (Cons y ys)
  then have "is_double y" and IH: "insertBy js_sub (Fin x) (map Fin ys) = map Fin (insort x ys)"
    by simp_all
  from compare_sign [OF assms(1) this(1)] IH show ?case
    by (simp add: not_less)
qed

lemma sortBy_sort:
  assumes "\<forall>y \<in> set xs. is_double y"
  shows "sortBy js_sub (map Fin xs) = map Fin (sort xs)"
  using assms
proof (induction xs)
  case Nil
  then show ?case by (simp add: sortBy_def)
next
  case (Cons x xs)
  then have x: "is_double x" and xs: "\<forall>y \<in> set (sort xs). is_double y"
    and IH: "sortBy js_sub (map Fin xs) = map Fin (sort xs)"
    by simp_all
  have "sortBy js_sub (map Fin (x # xs)) = insertBy js_sub (Fin x) (sortBy js_sub (map Fin xs))"
    by (simp add: sortBy_def)
  also have "\<dots> = map Fin (insort x (sort xs))"
    unfolding IH by (rule insertBy_insort [OF x xs])
  finally show ?case
    by (simp add: sort_key_simps)
qed

subsection \<open>The index of a percentile\<close>

lemma floor_fl:
  assumes "0 \<le> m" and "m < 2 ^ 48" and "of_int m \<le> x" and "x \<le> of_int m + 15 / 16"
  shows "Math_floor (fl x) = Fin (of_int m)"
proof -
  define hi :: rat where "hi = of_int (16 * m + 15) * 2 powi (- 4)"
  have hi: "hi = of_int m + 15 / 16"
    unfolding hi_def by (simp add: power_int_minus field_simps)
  have b: "\<bar>m\<bar> < 2 ^ 53" "\<bar>16 * m + 15\<bar> < 2 ^ 53"
    using assms(1,2) by simp_all
  have "(- 1074::int) \<le> - 4"
    by simp
  with b(2) have "rnd hi = hi"
    unfolding hi_def by (rule rnd_repr)
  with rnd_int [OF b(1)] have r: "rnd (of_int m) = of_int m" "rnd hi = hi"
    by simp_all
  have m0: "0 \<le> (of_int m :: rat)"
    using assms(1) by simp
  have "(of_int m :: rat) < of_int (2 ^ 48)"
    using assms(2) by (simp only: of_int_less_iff)
  then have "(of_int m :: rat) + 15 / 16 < 562949953421312"
    by simp
  also have "\<dots> = 2 powi 49"
    by simp
  also have "\<dots> \<le> 2 powi 1024"
    by (rule p2_mono) simp
  finally have "(of_int m :: rat) + 15 / 16 < 2 powi 1024" .
  with m0 have s: "\<bar>of_int m :: rat\<bar> < 2 powi 1024" "\<bar>hi\<bar> < 2 powi 1024"
    unfolding hi by linarith+
  from fl_between [OF r s assms(3)] assms(4)
  have f: "fl x = Fin (rnd x)" and "of_int m \<le> rnd x" and "rnd x \<le> of_int m + 15 / 16"
    unfolding hi by simp_all
  then have "\<lfloor>rnd x\<rfloor> = m"
    by (intro floor_unique) simp_all
  then show ?thesis
    unfolding f by simp
qed

lemma fl_tenth: "fl (1 / 10) = Fin (3602879701896397 / 36028797018963968)"
  by code_simp

lemma fl_nine_tenths: "fl (9 / 10) = Fin (8106479329266893 / 9007199254740992)"
  by code_simp

lemma index_tenth:
  assumes "k < 2 ^ 32"
  shows "Math_floor (js_mul (fl (1 / 10)) (Fin (of_nat k))) = Fin (of_nat (k div 10))"
proof -
  define m where "m = int (k div 10)"
  define j where "j = int (k mod 10)"
  have "int k = 10 * m + j"
    unfolding m_def j_def by presburger
  then have k: "(of_nat k :: rat) = 10 * of_int m + of_int j"
    by (metis of_int_add of_int_mult of_int_numeral of_int_of_nat_eq)
  have "0 \<le> j" and "j \<le> 9"
    unfolding j_def by simp_all
  then have j: "0 \<le> (of_int j :: rat)" "(of_int j :: rat) \<le> 9"
    by simp_all
  have "0 \<le> m" and m48: "m < 2 ^ 48"
    using assms unfolding m_def by simp_all
  then have m: "0 \<le> (of_int m :: rat)"
    by simp
  have "int k < 2 ^ 32"
    using assms by simp
  then have "(of_int (int k) :: rat) < of_int (2 ^ 32)"
    by (simp only: of_int_less_iff)
  then have kb: "(of_nat k :: rat) < 4294967296"
    by simp
  have lo: "of_int m \<le> 3602879701896397 / 36028797018963968 * (of_nat k :: rat)"
    using k j m by simp
  have up: "3602879701896397 / 36028797018963968 * (of_nat k :: rat) \<le> of_int m + 15 / 16"
    using k j m kb by simp
  have "Math_floor (fl (3602879701896397 / 36028797018963968 * of_nat k)) = Fin (of_int m)"
    using \<open>0 \<le> m\<close> m48 lo up by (rule floor_fl)
  then show ?thesis
    unfolding fl_tenth m_def by simp
qed

lemma index_nine_tenths:
  assumes "k < 2 ^ 32"
  shows "Math_floor (js_mul (fl (9 / 10)) (Fin (of_nat k))) = Fin (of_nat (9 * k div 10))"
proof -
  define m where "m = int (9 * k div 10)"
  define j where "j = int (9 * k mod 10)"
  have "9 * int k = 10 * m + j"
    unfolding m_def j_def by presburger
  then have k: "9 * (of_nat k :: rat) = 10 * of_int m + of_int j"
    by (metis of_int_add of_int_mult of_int_numeral of_int_of_nat_eq)
  have "0 \<le> j" and "j \<le> 9"
    unfolding j_def by simp_all
  then have j: "0 \<le> (of_int j :: rat)" "(of_int j :: rat) \<le> 9"
    by simp_all
  have "0 \<le> m" and m48: "m < 2 ^ 48"
    using assms unfolding m_def by simp_all
  then have m: "0 \<le> (of_int m :: rat)"
    by simp
  have "int k < 2 ^ 32"
    using assms by simp
  then have "(of_int (int k) :: rat) < of_int (2 ^ 32)"
    by (simp only: of_int_less_iff)
  then have kb: "(of_nat k :: rat) < 4294967296"
    by simp
  have lo: "of_int m \<le> 8106479329266893 / 9007199254740992 * (of_nat k :: rat)"
    using k j m by simp
  have up: "8106479329266893 / 9007199254740992 * (of_nat k :: rat) \<le> of_int m + 15 / 16"
    using k j m kb by simp
  have "Math_floor (fl (8106479329266893 / 9007199254740992 * of_nat k)) = Fin (of_int m)"
    using \<open>0 \<le> m\<close> m48 lo up by (rule floor_fl)
  then show ?thesis
    unfolding fl_nine_tenths m_def by simp
qed

lemma pick_index:
  assumes "0 < length srt" and "length srt \<le> 2 ^ 32"
  shows "pick srt (fl (1 / 10)) = Some (srt ! ((length srt - 1) div 10))"
    and "pick srt (fl (9 / 10)) = Some (srt ! (9 * (length srt - 1) div 10))"
proof -
  define n where "n = length srt"
  define k where "k = n - 1"
  have n: "n = Suc k" and k: "k < 2 ^ 32"
    using assms unfolding n_def k_def by simp_all
  have "\<bar>int k\<bar> < 2 ^ 53"
    using k by simp
  then have "fl (of_int (int k)) = Fin (of_int (int k))"
    using is_double_int unfolding is_double_def by blast
  moreover have "(of_nat n :: rat) - 1 = of_int (int k)"
    unfolding n by simp
  ultimately have sub: "js_sub (Fin (of_nat n)) (Fin 1) = Fin (of_nat k)"
    by simp
  have i1: "k div 10 < n" and i9: "9 * k div 10 < n"
    unfolding n by simp_all
  show "pick srt (fl (1 / 10)) = Some (srt ! ((length srt - 1) div 10))"
    unfolding pick_def n_def [symmetric] sub index_tenth [OF k] k_def [symmetric]
    using i1 by simp
  show "pick srt (fl (9 / 10)) = Some (srt ! (9 * (length srt - 1) div 10))"
    unfolding pick_def n_def [symmetric] sub index_nine_tenths [OF k] k_def [symmetric]
    using i9 by simp
qed

lemma set_map_filter: "y \<in> set (List.map_filter f xs) \<longleftrightarrow> (\<exists>x \<in> set xs. f x = Some y)"
  by (induction xs) (auto simp: List.map_filter_simps split: option.splits)

text \<open>
  C1: for the points produced by parsing, the numeric display prices are finite numbers;
  when there is none the range is null, and otherwise its \<open>min\<close> and \<open>max\<close> are the
  elements of the ascending list of these prices at the indices
  \<open>\<lfloor>(n - 1) / 10\<rfloor>\<close> and \<open>\<lfloor>9 * (n - 1) / 10\<rfloor>\<close>, which the rounded products
  \<open>floor(0.1 * (n - 1))\<close> and \<open>floor(0.9 * (n - 1))\<close> of the program are equal to. The bound on
  \<open>n\<close> is that of the length of an array.
\<close>

theorem priceRange_percentiles:
  assumes "vals = List.map_filter displayPriceValue
             (rows (complete_callback \<lparr>data = d, errors = es\<rparr> st))"
    and "length vals \<le> 2 ^ 32"
  shows "map Fin (map the_fin vals) = vals \<and>
         priceRange (rows (complete_callback \<lparr>data = d, errors = es\<rparr> st)) =
           (if vals = [] then None
            else Some
              (Some (Fin (sort (map the_fin vals) !
                 nat \<lfloor>(of_nat (length vals - 1) :: rat) / 10\<rfloor>)),
               Some (Fin (sort (map the_fin vals) !
                 nat \<lfloor>9 * (of_nat (length vals - 1) :: rat) / 10\<rfloor>))))"
proof -
  define rs where "rs = rows (complete_callback \<lparr>data = d, errors = es\<rparr> st)"
  define xs where "xs = map the_fin vals"
  define n where "n = length vals"
  have dbl: "\<exists>x. v = Fin x \<and> is_double x" if "v \<in> set vals" for v
  proof -
    from that obtain p where "p \<in> set rs" and v: "displayPriceValue p = Some v"
      unfolding assms(1) rs_def set_map_filter by blast
    then have "p \<in> set (points_loop d [])"
      by (simp add: rs_def complete_callback_def split: list.splits)
    then obtain row where "rowToPoint row = Some p"
      unfolding points_loop_set by blast
    from displayPriceValue_double [OF this v] show ?thesis
      by blast
  qed
  have vals: "map Fin xs = vals"
  proof -
    have "Fin (the_fin v) = v" if "v \<in> set vals" for v
      using dbl [OF that] by auto
    then have "map (\<lambda>v. Fin (the_fin v)) vals = vals"
      by (rule map_idI)
    then show ?thesis
      by (simp add: xs_def comp_def)
  qed
  have "is_double (the_fin v)" if "v \<in> set vals" for v
    using dbl [OF that] by auto
  then have xs: "\<forall>x \<in> set xs. is_double x"
    unfolding xs_def by simp
  have len: "length xs = n"
    by (simp add: xs_def n_def)
  have srt: "sortBy js_sub vals = map Fin (sort xs)"
    unfolding vals [symmetric] using xs by (rule sortBy_sort)
  have i1: "nat \<lfloor>(of_nat (n - 1) :: rat) / 10\<rfloor> = (n - 1) div 10"
    using floor_divide_of_nat_eq [of "n - 1" 10, where ?'a = rat] by simp
  have "9 * (of_nat (n - 1) :: rat) = of_nat (9 * (n - 1))"
    by simp
  then have i9: "nat \<lfloor>9 * (of_nat (n - 1) :: rat) / 10\<rfloor> = 9 * (n - 1) div 10"
    using floor_divide_of_nat_eq [of "9 * (n - 1)" 10, where ?'a = rat] by simp
  have range: "priceRange rs =
      (if vals = [] then None
       else Some (Some (Fin (sort xs ! ((n - 1) div 10))), Some (Fin (sort xs ! (9 * (n - 1) div 10)))))"
  proof (cases "vals = []")
    case True
    then show ?thesis
      by (simp add: priceRange_def assms(1) rs_def)
  next
    case False
    then have pos: "0 < n"
      by (simp add: n_def)
    then have l: "0 < length (map Fin (sort xs))" "length (map Fin (sort xs)) \<le> 2 ^ 32"
      using assms(2) len by (simp_all add: n_def)
    have "(n - 1) div 10 < length (sort xs)" and "9 * (n - 1) div 10 < length (sort xs)"
      using pos len by simp_all
    then have nth: "map Fin (sort xs) ! ((n - 1) div 10) = Fin (sort xs ! ((n - 1) div 10))"
      "map Fin (sort xs) ! (9 * (n - 1) div 10) = Fin (sort xs ! (9 * (n - 1) div 10))"
      by simp_all
    have "priceRange rs =
        Some (pick (map Fin (sort xs)) (fl (1 / 10)), pick (map Fin (sort xs)) (fl (9 / 10)))"
      using False unfolding priceRange_def Let_def rs_def assms(1) [symmetric] srt by simp
    also have "\<dots> = Some (Some (Fin (sort xs ! ((n - 1) div 10))),
        Some (Fin (sort xs ! (9 * (n - 1) div 10))))"
      unfolding pick_index [OF l] using nth len by simp
    finally show ?thesis
      using False by simp
  qed
  have "priceRange rs =
      (if vals = [] then None
       else Some (Some (Fin (sort xs ! nat \<lfloor>(of_nat (n - 1) :: rat) / 10\<rfloor>)),
                  Some (Fin (sort xs ! nat \<lfloor>9 * (of_nat (n - 1) :: rat) / 10\<rfloor>))))"
    unfolding i1 i9 by (rule range)
  with vals show ?thesis
    unfolding xs_def n_def rs_def by (rule conjI)
qed

lemma toPounds_samples:
  "toPounds ''0'' = Some (Fin 0)" "toPounds ''100'' = Some (Fin 1)" "toPounds ''200'' = Some (Fin 2)"
  by code_simp+

lemma sample_price_value:
  "displayPriceValue
     (makePoint [(''forecourts.location.latitude'', ''0''),
        (''forecourts.location.longitude'', ''0''), (''forecourts.fuel_price.E10'', c # s)] a b) =
   toPounds (normalizePrice (c # s))"
  by (simp add: makePoint_fields priceKeys_def lastSegment_def getDisplayPriceValue_def
      preferred_def toPounds_def parseFloat_empty)

theorem priceRange_percentiles_witness:
  "priceRange (rows (complete_callback
     \<lparr>data = [[(''forecourts.location.latitude'', ''0''),
               (''forecourts.location.longitude'', ''0''), (''forecourts.fuel_price.E10'', ''200'')],
              [(''forecourts.location.latitude'', ''0''),
               (''forecourts.location.longitude'', ''0''), (''forecourts.fuel_price.E10'', ''0'')],
              [(''forecourts.location.latitude'', ''0''),
               (''forecourts.location.longitude'', ''0''), (''forecourts.fuel_price.E10'', ''100'')]],
      errors = []\<rparr>
     \<lparr>fileName = [], rows = [], parseError = []\<rparr>)) = Some (Some (Fin 0), Some (Fin 1)) \<and>
   priceRange (rows (complete_callback \<lparr>data = [], errors = []\<rparr>
     \<lparr>fileName = [], rows = [], parseError = []\<rparr>)) = None"
proof -
  let ?st = "\<lparr>fileName = [], rows = [], parseError = []\<rparr>"
  let ?d = "[[(''forecourts.location.latitude'', ''0''),
               (''forecourts.location.longitude'', ''0''), (''forecourts.fuel_price.E10'', ''200'')],
              [(''forecourts.location.latitude'', ''0''),
               (''forecourts.location.longitude'', ''0''), (''forecourts.fuel_price.E10'', ''0'')],
              [(''forecourts.location.latitude'', ''0''),
               (''forecourts.location.longitude'', ''0''), (''forecourts.fuel_price.E10'', ''100'')]]"
  have v: "[Fin 2, Fin 0, Fin 1] =
      List.map_filter displayPriceValue (rows (complete_callback \<lparr>data = ?d, errors = []\<rparr> ?st))"
    by (simp add: complete_callback_def rowToPoint_zero List.map_filter_simps sample_price_value
        normalizePrice_def toPounds_samples)
  have e: "[] =
      List.map_filter displayPriceValue (rows (complete_callback \<lparr>data = [], errors = []\<rparr> ?st))"
    by (simp add: complete_callback_def List.map_filter_simps)
  have "\<lfloor>(1::rat) / 5\<rfloor> = 0" and "\<lfloor>(9::rat) / 5\<rfloor> = 1"
    by (rule floor_unique; simp)+
  then have "priceRange (rows (complete_callback \<lparr>data = ?d, errors = []\<rparr> ?st)) =
      Some (Some (Fin 0), Some (Fin 1))"
    using priceRange_percentiles [OF v] by (simp add: sort_key_simps)
  moreover have "priceRange (rows (complete_callback \<lparr>data = [], errors = []\<rparr> ?st)) = None"
    using priceRange_percentiles [OF e] by simp
  ultimately show ?thesis
    by (rule conjI)
qed

subsection \<open>The color of a price\<close>

text \<open>
  C7: the arguments of \<^verbatim>\<open>priceToColor\<close> are prices in pounds, the results of
  \<^verbatim>\<open>toPounds\<close>. For a finite value and a range \<open>min < max\<close> of such prices, the color is
  the \<^verbatim>\<open>hsl\<close> string of the hue \<open>120 - 120 * t\<close>, where \<open>t\<close> is the quotient
  \<open>(value - min) / (max - min)\<close> clamped to the unit interval; the hue is a finite number
  between 0 and 120, it is 120 for a value up to \<open>min\<close> and 0 for a value from \<open>max\<close> on,
  and it does not increase when the value grows. When the value is not finite or
  \<open>min === max\<close>, the color is \<^verbatim>\<open>#16a34a\<close>.
\<close>

theorem priceToColor_hue:
  "(toPounds sb = Some (Fin b) \<and> toPounds sc = Some (Fin c) \<and> b < c \<longrightarrow>
      (\<exists>h. priceToHue (Fin v) (Fin b) (Fin c) = Fin h \<and>
           priceToColor (Fin v) (Fin b) (Fin c) = ''hsl('' @ numToString (Fin h) @ '', 70%, 45%)'' \<and>
           priceToHue (Fin v) (Fin b) (Fin c) =
             js_sub (Fin 120) (js_mul (Fin 120)
               (Fin (clampUnit (js_div (js_sub (Fin v) (Fin b)) (js_sub (Fin c) (Fin b)))))) \<and>
           0 \<le> h \<and> h \<le> 120 \<and> (v \<le> b \<longrightarrow> h = 120) \<and> (c \<le> v \<longrightarrow> h = 0) \<and>
           (\<forall>v'. v \<le> v' \<longrightarrow>
              (\<exists>h'. priceToHue (Fin v') (Fin b) (Fin c) = Fin h' \<and> h' \<le> h)))) \<and>
   (\<not> isFinite w \<or> js_eq mn mx \<longrightarrow> priceToColor w mn mx = ''#16a34a'')"
proof (rule conjI)
  show "\<not> isFinite w \<or> js_eq mn mx \<longrightarrow> priceToColor w mn mx = ''#16a34a''"
    by (simp add: priceToColor_def)
next
  show "toPounds sb = Some (Fin b) \<and> toPounds sc = Some (Fin c) \<and> b < c \<longrightarrow>
      (\<exists>h. priceToHue (Fin v) (Fin b) (Fin c) = Fin h \<and>
           priceToColor (Fin v) (Fin b) (Fin c) = ''hsl('' @ numToString (Fin h) @ '', 70%, 45%)'' \<and>
           priceToHue (Fin v) (Fin b) (Fin c) =
             js_sub (Fin 120) (js_mul (Fin 120)
               (Fin (clampUnit (js_div (js_sub (Fin v) (Fin b)) (js_sub (Fin c) (Fin b)))))) \<and>
           0 \<le> h \<and> h \<le> 120 \<and> (v \<le> b \<longrightarrow> h = 120) \<and> (c \<le> v \<longrightarrow> h = 0) \<and>
           (\<forall>v'. v \<le> v' \<longrightarrow>
              (\<exists>h'. priceToHue (Fin v') (Fin b) (Fin c) = Fin h' \<and> h' \<le> h)))"
  proof (intro impI, elim conjE)
    assume b: "toPounds sb = Some (Fin b)" and c: "toPounds sc = Some (Fin c)" and lt: "b < c"
    from toPounds_double [OF b] have db: "is_double b" and bb: "\<bar>b\<bar> \<le> 2 powi 1018"
      by simp_all
    from toPounds_double [OF c] have dc: "is_double c" and bc: "\<bar>c\<bar> \<le> 2 powi 1018"
      by simp_all
    have fin: "isFinite (js_sub (Fin c) (Fin b))"
      using bb bc by (rule pounds_difference_finite)
    from db dc lt fin have "is_double b \<and> is_double c \<and> b < c \<and> isFinite (js_sub (Fin c) (Fin b))"
      by (intro conjI)
    with priceToHue_clamped [of b c v w mn mx, THEN conjunct1]
    show "\<exists>h. priceToHue (Fin v) (Fin b) (Fin c) = Fin h \<and>
           priceToColor (Fin v) (Fin b) (Fin c) = ''hsl('' @ numToString (Fin h) @ '', 70%, 45%)'' \<and>
           priceToHue (Fin v) (Fin b) (Fin c) =
             js_sub (Fin 120) (js_mul (Fin 120)
               (Fin (clampUnit (js_div (js_sub (Fin v) (Fin b)) (js_sub (Fin c) (Fin b)))))) \<and>
           0 \<le> h \<and> h \<le> 120 \<and> (v \<le> b \<longrightarrow> h = 120) \<and> (c \<le> v \<longrightarrow> h = 0) \<and>
           (\<forall>v'. v \<le> v' \<longrightarrow>
              (\<exists>h'. priceToHue (Fin v') (Fin b) (Fin c) = Fin h' \<and> h' \<le> h))"
      by (rule mp)
  qed
qed

theorem priceToColor_hue_witness:
  "toPounds ''100'' = Some (Fin 1) \<and> toPounds ''200'' = Some (Fin 2) \<and>
   (\<exists>h. priceToHue (Fin (3 / 2)) (Fin 1) (Fin 2) = Fin h \<and>
        priceToColor (Fin (3 / 2)) (Fin 1) (Fin 2) = ''hsl('' @ numToString (Fin h) @ '', 70%, 45%)'' \<and>
        0 \<le> h \<and> h \<le> 120) \<and>
   priceToColor PosInf (Fin 1) (Fin 2) = ''#16a34a'' \<and>
   priceToColor (Fin (3 / 2)) (Fin 1) (Fin 1) = ''#16a34a''"
proof -
  note s = toPounds_samples(2,3)
  have lt: "(1::rat) < 2"
    by simp
  from priceToColor_hue [of "''100''" 1 "''200''" 2 "3 / 2" PosInf "Fin 1" "Fin 2"] s lt
  obtain h where "priceToHue (Fin (3 / 2)) (Fin 1) (Fin 2) = Fin h"
    "priceToColor (Fin (3 / 2)) (Fin 1) (Fin 2) = ''hsl('' @ numToString (Fin h) @ '', 70%, 45%)''"
    "0 \<le> h" "h \<le> 120"
    by blast
  then have "\<exists>h. priceToHue (Fin (3 / 2)) (Fin 1) (Fin 2) = Fin h \<and>
        priceToColor (Fin (3 / 2)) (Fin 1) (Fin 2) = ''hsl('' @ numToString (Fin h) @ '', 70%, 45%)'' \<and>
        0 \<le> h \<and> h \<le> 120"
    by blast
  moreover have "priceToColor PosInf (Fin 1) (Fin 2) = ''#16a34a''"
    using priceToColor_hue [of "''100''" 1 "''200''" 2 "3 / 2" PosInf "Fin 1" "Fin 2"] by simp
  moreover have "priceToColor (Fin (3 / 2)) (Fin 1) (Fin 1) = ''#16a34a''"
    using priceToColor_hue [of "''100''" 1 "''200''" 2 "3 / 2" "Fin (3 / 2)" "Fin 1" "Fin 1"] by simp
  ultimately show ?thesis
    using s by (intro conjI)
qed

subsection \<open>Printing with a fixed number of decimals\<close>



lemma natDigits_not_Nil: "natDigits n \<noteq> []"
  by (subst natDigits.simps) simp









subsection \<open>The price formatters\<close>











end
